theory Spec2Isabelle
  imports Main "HOL-Library.Word" "HOL-Library.Multiset" "HOL-Library.List_Lexorder"
begin

section \<open>Primitive value layer\<close>

text \<open>
  Bytes are 8-bit words; a script, a hash and a public key are byte vectors.
  \<open>CAmount\<close> is \<open>int64_t\<close> in the source: a 64-bit word that \<open>sint\<close> reads as a signed
  number. \<open>+\<close> and \<open>-\<close> on amounts wrap around modulo \<open>2^64\<close>, which is what the
  compiled code does where the C++ standard leaves signed overflow undefined, and amounts
  are compared as signed numbers (\<open><s\<close>, \<open>\<le>s\<close>).
\<close>

type_synonym byte = "8 word"
type_synonym bytes = "byte list"
type_synonym CAmount = "64 word"

record COutPoint =
  op_hash :: bytes
  op_n :: "32 word"

record CTxOut =
  nValue :: CAmount
  scriptPubKey :: bytes

section \<open>Coin selection (wallet/coinselection.cpp)\<close>

text \<open>
  \<open>CInputCoin\<close> with the fields that coinselection.cpp reads (\<open>fee\<close>,
  \<open>long_term_fee\<close>). \<open>operator<\<close> and \<open>operator==\<close> of the class compare the
  outpoint only.
\<close>

record CInputCoin =
  outpoint :: COutPoint
  txout :: CTxOut
  effective_value :: CAmount
  fee :: CAmount
  long_term_fee :: CAmount
  m_input_bytes :: "32 word"

text \<open>
  \<open>std::set<CInputCoin>\<close>: the elements are kept in a list; \<open>insert\<close> leaves the set
  unchanged when it already holds a coin with the same outpoint, because the set's order
  is \<open>CInputCoin::operator<\<close>.
\<close>

type_synonym coin_set = "CInputCoin list"

definition set_insert :: "CInputCoin \<Rightarrow> coin_set \<Rightarrow> coin_set" where
  "set_insert c s = (if outpoint c \<in> outpoint ` set s then s else s @ [c])"

definition set_clear :: "coin_set \<Rightarrow> coin_set" where
  "set_clear s = []"

text \<open>
  What a call can do besides returning: \<open>std::vector::at\<close> throws
  \<open>std::out_of_range\<close>, and a failed \<open>assert\<close> aborts the process.
\<close>

datatype 'a outcome = Returns 'a | Throws_out_of_range | Assertion_failed

text \<open>\<open>v.at(i)\<close> for an \<open>int\<close> index: a negative \<open>i\<close> converts to a huge \<open>size_t\<close>.\<close>

definition at :: "'a list \<Rightarrow> int \<Rightarrow> 'a option" where
  "at v i = (if 0 \<le> i \<and> nat i < length v then Some (v ! nat i) else None)"

definition TOTAL_TRIES :: nat where
  "TOTAL_TRIES = 100000"

text \<open>
  The locals of the search loop. \<open>depth\<close> is an \<open>int\<close> in the source; it goes up by at
  most one per round of the loop and the walk back stops at -1, so it stays between -1
  and \<open>TOTAL_TRIES\<close> and is modelled as an integer.
\<close>

record bnb_state =
  curr_value :: CAmount
  depth :: int
  curr_selection :: "bool list"
  curr_available_value :: CAmount
  curr_waste :: CAmount
  best_selection :: "bool list"
  best_waste :: CAmount

datatype 'a flow = Continue 'a | Break 'a

text \<open>The three conditions for starting a backtrack (coinselection.cpp:81-83).\<close>

definition bnb_must_backtrack ::
  "CInputCoin list \<Rightarrow> CAmount \<Rightarrow> CAmount \<Rightarrow> bnb_state \<Rightarrow> bool outcome" where
  "bnb_must_backtrack utxo_pool actual_target cost_of_change st =
     (if curr_value st + curr_available_value st <s actual_target
         \<or> actual_target + cost_of_change <s curr_value st then Returns True
      else if best_waste st <s curr_waste st then
        (case at utxo_pool 0 of
           None \<Rightarrow> Throws_out_of_range
         | Some u \<Rightarrow> Returns (0 <s fee u - long_term_fee u))
      else Returns False)"

text \<open>
  The selected value is within range (coinselection.cpp:85-96): the excess is added to
  the waste for the comparison and removed again.
\<close>

definition bnb_record_best :: "CAmount \<Rightarrow> bnb_state \<Rightarrow> bnb_state" where
  "bnb_record_best actual_target st =
     (let w = curr_waste st + (curr_value st - actual_target);
          st1 = (if w \<le>s best_waste st
                 then st\<lparr>best_selection := curr_selection st, best_waste := w\<rparr>
                 else st)
      in st1\<lparr>curr_waste := w - (curr_value st - actual_target)\<rparr>)"

text \<open>
  The inner \<open>while\<close> of the backtrack (coinselection.cpp:105-109): walk back over the
  omitted coins, giving their value back to \<open>curr_available_value\<close>.
\<close>

function walk_back ::
  "CInputCoin list \<Rightarrow> bool list \<Rightarrow> int \<Rightarrow> CAmount \<Rightarrow> (int \<times> CAmount) outcome" where
  "walk_back utxo_pool sel d avail =
     (if 0 \<le> d then
        (case at sel d of
           None \<Rightarrow> Throws_out_of_range
         | Some b \<Rightarrow>
             if \<not> b then
               (case at utxo_pool d of
                  None \<Rightarrow> Throws_out_of_range
                | Some u \<Rightarrow> walk_back utxo_pool sel (d - 1) (avail + effective_value u))
             else Returns (d, avail))
      else Returns (d, avail))"
  by pat_completeness auto
termination
  by (relation "measure (\<lambda>(utxo_pool, sel, d, avail). nat (d + 1))") auto

declare walk_back.simps [simp del]

definition bnb_backtrack :: "CInputCoin list \<Rightarrow> bnb_state \<Rightarrow> bnb_state flow outcome" where
  "bnb_backtrack utxo_pool st =
     (case walk_back utxo_pool (curr_selection st) (depth st - 1) (curr_available_value st) of
        Throws_out_of_range \<Rightarrow> Throws_out_of_range
      | Assertion_failed \<Rightarrow> Assertion_failed
      | Returns (d, avail) \<Rightarrow>
          if d < 0 then Returns (Break (st\<lparr>depth := d, curr_available_value := avail\<rparr>))
          else if nat d < length (curr_selection st) then
            (case at utxo_pool d of
               None \<Rightarrow> Throws_out_of_range
             | Some u \<Rightarrow>
                 Returns (Continue (st\<lparr>
                   curr_selection := (curr_selection st)[nat d := False],
                   curr_value := curr_value st - effective_value u,
                   curr_waste := curr_waste st - (fee u - long_term_fee u),
                   curr_available_value := avail,
                   depth := d + 1\<rparr>)))
          else Throws_out_of_range)"

text \<open>
  Moving forwards (coinselection.cpp:119-141). \<open>bnb_skip\<close> is the branch that leaves
  out a coin equivalent to its omitted predecessor, \<open>bnb_include\<close> the inclusion branch.
\<close>

definition bnb_skip :: "CInputCoin \<Rightarrow> bnb_state \<Rightarrow> bnb_state flow outcome" where
  "bnb_skip u st =
     (if nat (depth st) < length (curr_selection st) then
        Returns (Continue (st\<lparr>
          curr_selection := (curr_selection st)[nat (depth st) := False],
          curr_available_value := curr_available_value st - effective_value u,
          depth := depth st + 1\<rparr>))
      else Throws_out_of_range)"

definition bnb_include :: "CInputCoin \<Rightarrow> bnb_state \<Rightarrow> bnb_state flow outcome" where
  "bnb_include u st =
     (if nat (depth st) < length (curr_selection st) then
        Returns (Continue (st\<lparr>
          curr_available_value := curr_available_value st - effective_value u,
          curr_waste := curr_waste st + (fee u - long_term_fee u),
          curr_selection := (curr_selection st)[nat (depth st) := True],
          curr_value := curr_value st + effective_value u,
          depth := depth st + 1\<rparr>))
      else Throws_out_of_range)"

definition bnb_forward :: "CInputCoin list \<Rightarrow> bnb_state \<Rightarrow> bnb_state flow outcome" where
  "bnb_forward utxo_pool st =
     (case at utxo_pool (depth st) of
        None \<Rightarrow> Throws_out_of_range
      | Some u \<Rightarrow>
          if 0 <s effective_value u then
            (if 0 < depth st then
               (case at (curr_selection st) (depth st - 1) of
                  None \<Rightarrow> Throws_out_of_range
                | Some prev_selected \<Rightarrow>
                    if prev_selected then bnb_include u st
                    else
                      (case at utxo_pool (depth st - 1) of
                         None \<Rightarrow> Throws_out_of_range
                       | Some p \<Rightarrow>
                           if effective_value u = effective_value p \<and> fee u = fee p
                           then bnb_skip u st
                           else bnb_include u st))
             else bnb_include u st)
          else Assertion_failed)"

text \<open>One pass through the body of the search loop.\<close>

definition bnb_iteration ::
  "CInputCoin list \<Rightarrow> CAmount \<Rightarrow> CAmount \<Rightarrow> bnb_state \<Rightarrow> bnb_state flow outcome" where
  "bnb_iteration utxo_pool actual_target cost_of_change st =
     (case bnb_must_backtrack utxo_pool actual_target cost_of_change st of
        Throws_out_of_range \<Rightarrow> Throws_out_of_range
      | Assertion_failed \<Rightarrow> Assertion_failed
      | Returns True \<Rightarrow> bnb_backtrack utxo_pool st
      | Returns False \<Rightarrow>
          if actual_target \<le>s curr_value st
          then bnb_backtrack utxo_pool (bnb_record_best actual_target st)
          else bnb_forward utxo_pool st)"

text \<open>The \<open>for\<close> loop over \<open>i < TOTAL_TRIES\<close> (coinselection.cpp:79-142).\<close>

function bnb_loop ::
  "CInputCoin list \<Rightarrow> CAmount \<Rightarrow> CAmount \<Rightarrow> nat \<Rightarrow> bnb_state \<Rightarrow> bnb_state outcome" where
  "bnb_loop utxo_pool actual_target cost_of_change i st =
     (if i < TOTAL_TRIES then
        (case bnb_iteration utxo_pool actual_target cost_of_change st of
           Throws_out_of_range \<Rightarrow> Throws_out_of_range
         | Assertion_failed \<Rightarrow> Assertion_failed
         | Returns (Break st') \<Rightarrow> Returns st'
         | Returns (Continue st') \<Rightarrow> bnb_loop utxo_pool actual_target cost_of_change (i + 1) st')
      else Returns st)"
  by pat_completeness auto
termination
  by (relation "measure (\<lambda>(utxo_pool, actual_target, cost_of_change, i, st). TOTAL_TRIES - i)")
     auto

declare bnb_loop.simps [simp del]

text \<open>Setting the output set (coinselection.cpp:149-156).\<close>

fun emit_selection ::
  "CInputCoin list \<Rightarrow> bool list \<Rightarrow> coin_set \<times> CAmount \<Rightarrow> (coin_set \<times> CAmount) outcome" where
  "emit_selection us [] acc = Returns acc"
| "emit_selection [] (b # bs) acc =
     (if b then Throws_out_of_range else emit_selection [] bs acc)"
| "emit_selection (u # us) (b # bs) (s, v) =
     emit_selection us bs (if b then (set_insert u s, v + nValue (txout u)) else (s, v))"

text \<open>
  What the caller sees after \<open>SelectCoinsBnB\<close>: the returned flag, the two output
  parameters and the pool, which the function sorts in place.
\<close>

record selection_result =
  success :: bool
  out_set :: coin_set
  value_ret :: CAmount
  pool_after :: "CInputCoin list"

text \<open>
  \<open>SelectCoinsBnB\<close>. \<open>std::sort\<close> with the \<open>descending\<close> comparator leaves the order of
  coins with equal effective value open, so the sort is the parameter \<open>srt\<close>.
  \<open>MAX_MONEY\<close> is declared in amount.h, outside this source tree, and is a parameter as
  well. \<open>out_set0\<close> and \<open>value_ret0\<close> are what the caller's \<open>out_set\<close> and
  \<open>value_ret\<close> hold at the call: the function clears the first on entry and assigns
  the second only on success.
\<close>

definition SelectCoinsBnB ::
  "(CInputCoin list \<Rightarrow> CInputCoin list) \<Rightarrow> CAmount \<Rightarrow> CInputCoin list \<Rightarrow> CAmount \<Rightarrow> CAmount
     \<Rightarrow> coin_set \<Rightarrow> CAmount \<Rightarrow> CAmount \<Rightarrow> selection_result outcome" where
  "SelectCoinsBnB srt MAX_MONEY utxo_pool target_value cost_of_change out_set0 value_ret0
     not_input_fees =
     (let cleared = set_clear out_set0;
          actual_target = not_input_fees + target_value;
          avail = sum_list (map effective_value utxo_pool)
      in if avail <s actual_target
         then Returns \<lparr>success = False, out_set = cleared, value_ret = value_ret0,
                       pool_after = utxo_pool\<rparr>
         else
           (let sorted_pool = srt utxo_pool;
                st0 = \<lparr>curr_value = 0, depth = 0,
                       curr_selection = replicate (length sorted_pool) False,
                       curr_available_value = avail, curr_waste = 0,
                       best_selection = [], best_waste = MAX_MONEY\<rparr>
            in case bnb_loop sorted_pool actual_target cost_of_change 0 st0 of
                 Throws_out_of_range \<Rightarrow> Throws_out_of_range
               | Assertion_failed \<Rightarrow> Assertion_failed
               | Returns st \<Rightarrow>
                   if best_selection st = []
                   then Returns \<lparr>success = False, out_set = cleared, value_ret = value_ret0,
                                 pool_after = sorted_pool\<rparr>
                   else
                     (case emit_selection sorted_pool (best_selection st) (cleared, 0) of
                        Throws_out_of_range \<Rightarrow> Throws_out_of_range
                      | Assertion_failed \<Rightarrow> Assertion_failed
                      | Returns (s, v) \<Rightarrow>
                          Returns \<lparr>success = True, out_set = s, value_ret = v,
                                   pool_after = sorted_pool\<rparr>)))"

subsection \<open>The knapsack solver\<close>

text \<open>
  Modelled from the spec: \<open>COIN\<close> is declared in amount.h, which is not among the
  sources; coinselection.h defines \<open>MIN_CHANGE\<close> as \<open>COIN / 100\<close> and the spec gives
  \<open>MIN_CHANGE = 10^6\<close> base units.
\<close>

definition COIN :: CAmount where
  "COIN = 100000000"

definition MIN_CHANGE :: CAmount where
  "MIN_CHANGE = COIN div 100"

text \<open>
  The locals of \<open>ApproximateBestSubset\<close>. \<open>draws\<close> counts the calls of
  \<open>insecure_rand.randbool()\<close> so far: the random context is the parameter \<open>rnd\<close>, and
  its \<open>k\<close>-th call returns \<open>rnd k\<close>.
\<close>

record abs_state =
  vfIncluded :: "bool list"
  nTotal :: CAmount
  fReachedTarget :: bool
  vfBest :: "bool list"
  nBest :: CAmount
  draws :: nat

text \<open>The body of the loop over \<open>i\<close> (coinselection.cpp:186-201).\<close>

definition abs_visit ::
  "(nat \<Rightarrow> bool) \<Rightarrow> CInputCoin list \<Rightarrow> CAmount \<Rightarrow> nat \<Rightarrow> nat \<Rightarrow> abs_state \<Rightarrow> abs_state" where
  "abs_visit rnd vValue nTargetValue nPass i st =
     (let chosen = (if nPass = 0 then rnd (draws st) else \<not> vfIncluded st ! i);
          st1 = (if nPass = 0 then st\<lparr>draws := draws st + 1\<rparr> else st)
      in if chosen then
           (let total = nTotal st1 + nValue (txout (vValue ! i));
                incl = (vfIncluded st1)[i := True]
            in if nTargetValue \<le>s total then
                 (let st2 = (if total <s nBest st1
                             then st1\<lparr>nBest := total, vfBest := incl\<rparr> else st1)
                  in st2\<lparr>fReachedTarget := True,
                          nTotal := total - nValue (txout (vValue ! i)),
                          vfIncluded := incl[i := False]\<rparr>)
               else st1\<lparr>nTotal := total, vfIncluded := incl\<rparr>)
         else st1)"

definition abs_pass ::
  "(nat \<Rightarrow> bool) \<Rightarrow> CInputCoin list \<Rightarrow> CAmount \<Rightarrow> nat \<Rightarrow> abs_state \<Rightarrow> abs_state" where
  "abs_pass rnd vValue nTargetValue nPass st =
     fold (abs_visit rnd vValue nTargetValue nPass) [0..<length vValue] st"

text \<open>One repetition: the loop \<open>nPass < 2 && !fReachedTarget\<close>.\<close>

definition abs_trial ::
  "(nat \<Rightarrow> bool) \<Rightarrow> CInputCoin list \<Rightarrow> CAmount \<Rightarrow> abs_state \<Rightarrow> abs_state" where
  "abs_trial rnd vValue nTargetValue st =
     (let st0 = st\<lparr>vfIncluded := replicate (length vValue) False, nTotal := 0,
                    fReachedTarget := False\<rparr>;
          st1 = abs_pass rnd vValue nTargetValue 0 st0
      in if fReachedTarget st1 then st1 else abs_pass rnd vValue nTargetValue 1 st1)"

text \<open>The loop \<open>nRep < iterations && nBest != nTargetValue\<close>.\<close>

function abs_reps ::
  "(nat \<Rightarrow> bool) \<Rightarrow> CInputCoin list \<Rightarrow> CAmount \<Rightarrow> int \<Rightarrow> int \<Rightarrow> abs_state \<Rightarrow> abs_state" where
  "abs_reps rnd vValue nTargetValue iterations nRep st =
     (if nRep < iterations \<and> nBest st \<noteq> nTargetValue
      then abs_reps rnd vValue nTargetValue iterations (nRep + 1)
             (abs_trial rnd vValue nTargetValue st)
      else st)"
  by pat_completeness auto
termination
  by (relation "measure (\<lambda>(rnd, vValue, nTargetValue, iterations, nRep, st).
                  nat (iterations - nRep))") auto

declare abs_reps.simps [simp del]

definition ApproximateBestSubset ::
  "(nat \<Rightarrow> bool) \<Rightarrow> CInputCoin list \<Rightarrow> CAmount \<Rightarrow> CAmount \<Rightarrow> int \<Rightarrow> bool list \<times> CAmount" where
  "ApproximateBestSubset rnd vValue nTotalLower nTargetValue iterations =
     (let st = abs_reps rnd vValue nTargetValue iterations 0
                 \<lparr>vfIncluded = [], nTotal = 0, fReachedTarget = False,
                  vfBest = replicate (length vValue) True, nBest = nTotalLower, draws = 0\<rparr>
      in (vfBest st, nBest st))"

text \<open>The first loop of \<open>KnapsackSolver\<close> (coinselection.cpp:219-236).\<close>

record scan_state =
  coinLowestLarger :: "CInputCoin option"
  vValue :: "CInputCoin list"
  nTotalLower :: CAmount

fun scan_pool :: "CAmount \<Rightarrow> CInputCoin list \<Rightarrow> scan_state \<Rightarrow> CInputCoin + scan_state" where
  "scan_pool nTargetValue [] s = Inr s"
| "scan_pool nTargetValue (coin # rest) s =
     (if nValue (txout coin) = nTargetValue then Inl coin
      else if nValue (txout coin) <s nTargetValue + MIN_CHANGE then
        scan_pool nTargetValue rest
          (s\<lparr>vValue := vValue s @ [coin], nTotalLower := nTotalLower s + nValue (txout coin)\<rparr>)
      else if (case coinLowestLarger s of
                 None \<Rightarrow> True
               | Some l \<Rightarrow> nValue (txout coin) <s nValue (txout l)) then
        scan_pool nTargetValue rest (s\<lparr>coinLowestLarger := Some coin\<rparr>)
      else scan_pool nTargetValue rest s)"

text \<open>Inserting the coins whose flag is set, and adding up their values.\<close>

fun insert_flagged ::
  "CInputCoin list \<Rightarrow> bool list \<Rightarrow> coin_set \<times> CAmount \<Rightarrow> coin_set \<times> CAmount" where
  "insert_flagged (u # us) (b # bs) (s, v) =
     insert_flagged us bs (if b then (set_insert u s, v + nValue (txout u)) else (s, v))"
| "insert_flagged us bs acc = acc"

text \<open>
  The end of \<open>KnapsackSolver\<close> (coinselection.cpp:266-293): return the bigger coin when
  there is one and the approximation is no better, the best subset otherwise.
\<close>

definition knapsack_finish ::
  "coin_set \<Rightarrow> CInputCoin list \<Rightarrow> CInputCoin option \<Rightarrow> CInputCoin list \<Rightarrow> bool list \<Rightarrow> CAmount
     \<Rightarrow> CAmount \<Rightarrow> selection_result" where
  "knapsack_finish cleared pool lowest_larger vs best nb nTargetValue =
     (case lowest_larger of
        None \<Rightarrow>
          (case insert_flagged vs best (cleared, 0) of
             (os, v) \<Rightarrow> \<lparr>success = True, out_set = os, value_ret = v, pool_after = pool\<rparr>)
      | Some l \<Rightarrow>
          if (nb \<noteq> nTargetValue \<and> nb <s nTargetValue + MIN_CHANGE) \<or> nValue (txout l) \<le>s nb
          then \<lparr>success = True, out_set = set_insert l cleared,
                value_ret = 0 + nValue (txout l), pool_after = pool\<rparr>
          else
            (case insert_flagged vs best (cleared, 0) of
               (os, v) \<Rightarrow> \<lparr>success = True, out_set = os, value_ret = v, pool_after = pool\<rparr>))"

text \<open>
  \<open>KnapsackSolver\<close>. \<open>random_shuffle\<close> and \<open>std::sort\<close> are the parameters \<open>shuffle\<close> and
  \<open>srt\<close>; each call of \<open>ApproximateBestSubset\<close> builds a random context of its own,
  \<open>rnd1\<close> and \<open>rnd2\<close>. \<open>out_set0\<close> is the caller's \<open>out_set\<close> at the call; \<open>value_ret\<close>
  is set to 0 on entry. The function has no \<open>at\<close> and no \<open>assert\<close>, so it always
  returns.
\<close>

definition KnapsackSolver ::
  "(CInputCoin list \<Rightarrow> CInputCoin list) \<Rightarrow> (CInputCoin list \<Rightarrow> CInputCoin list)
     \<Rightarrow> (nat \<Rightarrow> bool) \<Rightarrow> (nat \<Rightarrow> bool) \<Rightarrow> CInputCoin list \<Rightarrow> CAmount \<Rightarrow> coin_set
     \<Rightarrow> selection_result" where
  "KnapsackSolver shuffle srt rnd1 rnd2 utxo_pool nTargetValue out_set0 =
     (let cleared = set_clear out_set0;
          pool = shuffle utxo_pool in
      case scan_pool nTargetValue pool
             \<lparr>coinLowestLarger = None, vValue = [], nTotalLower = 0\<rparr> of
        Inl coin \<Rightarrow>
          \<lparr>success = True, out_set = set_insert coin cleared,
           value_ret = 0 + nValue (txout coin), pool_after = pool\<rparr>
      | Inr s \<Rightarrow>
          if nTotalLower s = nTargetValue then
            (case insert_flagged (vValue s) (replicate (length (vValue s)) True) (cleared, 0) of
               (os, v) \<Rightarrow> \<lparr>success = True, out_set = os, value_ret = v, pool_after = pool\<rparr>)
          else if nTotalLower s <s nTargetValue then
            (case coinLowestLarger s of
               None \<Rightarrow> \<lparr>success = False, out_set = cleared, value_ret = 0, pool_after = pool\<rparr>
             | Some l \<Rightarrow>
                 \<lparr>success = True, out_set = set_insert l cleared,
                  value_ret = 0 + nValue (txout l), pool_after = pool\<rparr>)
          else
            (let vs = srt (vValue s);
                 first = ApproximateBestSubset rnd1 vs (nTotalLower s) nTargetValue 1000;
                 second =
                   (if snd first \<noteq> nTargetValue \<and> nTargetValue + MIN_CHANGE \<le>s nTotalLower s
                    then ApproximateBestSubset rnd2 vs (nTotalLower s)
                           (nTargetValue + MIN_CHANGE) 1000
                    else first)
             in knapsack_finish cleared pool (coinLowestLarger s) vs (fst second) (snd second)
                  nTargetValue))"

subsection \<open>Building coins and sorting them\<close>

text \<open>
  The constructor \<open>CInputCoin(tx, i)\<close> of coinselection.h, given the hash of \<open>tx\<close> and
  its output \<open>i\<close>: the effective value starts as the output's value, the fees as 0 and
  \<open>m_input_bytes\<close> as -1.
\<close>

definition new_CInputCoin :: "bytes \<Rightarrow> 32 word \<Rightarrow> CTxOut \<Rightarrow> CInputCoin" where
  "new_CInputCoin tx_hash i out =
     \<lparr>outpoint = \<lparr>op_hash = tx_hash, op_n = i\<rparr>, txout = out,
      effective_value = nValue out, fee = 0, long_term_fee = 0, m_input_bytes = - 1\<rparr>"

text \<open>
  The comparator \<open>descending\<close> of coinselection.cpp, and one sort that orders by it
  (an insertion sort): one of the orders \<open>std::sort\<close> may produce.
\<close>

definition descending :: "CInputCoin \<Rightarrow> CInputCoin \<Rightarrow> bool" where
  "descending a b \<longleftrightarrow> effective_value b <s effective_value a"

fun insert_descending :: "CInputCoin \<Rightarrow> CInputCoin list \<Rightarrow> CInputCoin list" where
  "insert_descending x [] = [x]"
| "insert_descending x (y # ys) =
     (if descending x y then x # y # ys else y # insert_descending x ys)"

definition sort_descending :: "CInputCoin list \<Rightarrow> CInputCoin list" where
  "sort_descending xs = foldr insert_descending xs []"

section \<open>The PSBT codec (script/sign.h)\<close>

subsection \<open>Transactions and the primitives the codec calls\<close>

text \<open>
  The transaction types of primitives/transaction.h, as the spec's data model lists
  them. A script is its bytes; a witness is its stack of byte vectors.
\<close>

record CTxIn =
  prevout :: COutPoint
  scriptSig :: bytes
  nSequence :: "32 word"
  scriptWitness :: "bytes list"

record CMutableTransaction =
  nVersion :: "32 word"
  vin :: "CTxIn list"
  vout :: "CTxOut list"
  nLockTime :: "32 word"

text \<open>
  The hashers and the consensus encoding of transactions and outputs are outside the
  codec (hash.h, primitives/transaction.h): they are the parameter \<open>P\<close> of every
  function below. An \<open>unser\<close> function returns the value read and the number of bytes
  it consumed, or \<open>None\<close> when it throws.
\<close>

record primitives =
  Hash160 :: "bytes \<Rightarrow> bytes"
  SHA256 :: "bytes \<Rightarrow> bytes"
  GetHash :: "CMutableTransaction \<Rightarrow> bytes"
  ser_tx :: "CMutableTransaction \<Rightarrow> bytes"
  unser_tx :: "bytes \<Rightarrow> (CMutableTransaction \<times> nat) option"
  ser_txout :: "CTxOut \<Rightarrow> bytes"
  unser_txout :: "bytes \<Rightarrow> (CTxOut \<times> nat) option"

text \<open>
  The failures of deserialization, named as the spec names them. In the source each is a
  \<open>std::ios_base::failure\<close> with a message; \<open>VinIndexOutOfRange\<close> stands for the
  undefined behaviour of \<open>tx.vin[input.index]\<close> with an index past the end.
\<close>

datatype psbt_error =
    InvalidMagic
  | NonCanonicalCompactSize
  | UnexpectedEof
  | BadKeyLength byte
  | HashMismatch byte
  | UtxoMismatch
  | IndexPolicyViolation
  | UnexpectedInputCount
  | MalformedEmbeddedTransaction
  | VinIndexOutOfRange

subsection \<open>Streams and integers on the wire\<close>

text \<open>
  A stream is the list of the bytes still to be read. Reading \<open>k\<close> bytes throws when
  fewer are left. Integers are little-endian: \<open>le_val\<close> reads one, \<open>le_bytes k\<close> writes
  one in \<open>k\<close> bytes.
\<close>

definition read_bytes :: "nat \<Rightarrow> bytes \<Rightarrow> psbt_error + bytes \<times> bytes" where
  "read_bytes k s = (if length s < k then Inl UnexpectedEof else Inr (take k s, drop k s))"

fun le_val :: "bytes \<Rightarrow> nat" where
  "le_val [] = 0"
| "le_val (b # bs) = unat b + 256 * le_val bs"

fun le_bytes :: "nat \<Rightarrow> nat \<Rightarrow> bytes" where
  "le_bytes 0 v = []"
| "le_bytes (Suc k) v = of_nat (v mod 256) # le_bytes k (v div 256)"

definition read_le :: "nat \<Rightarrow> bytes \<Rightarrow> psbt_error + nat \<times> bytes" where
  "read_le k s = (case read_bytes k s of Inl e \<Rightarrow> Inl e | Inr (b, r) \<Rightarrow> Inr (le_val b, r))"

text \<open>
  Modelled from the spec: \<open>ReadCompactSize\<close> and \<open>WriteCompactSize\<close> are defined in
  serialize.h, which is not among the sources. The spec: \<open>n\<close> if \<open>n < 253\<close>; \<open>0xFD\<close> and
  a \<open>u16\<close> if \<open>n \<le> 0xFFFF\<close>; \<open>0xFE\<close> and a \<open>u32\<close> if \<open>n \<le> 0xFFFFFFFF\<close>; else \<open>0xFF\<close>
  and a \<open>u64\<close>; on read the shortest encoding is required.
\<close>

definition WriteCompactSize :: "nat \<Rightarrow> bytes" where
  "WriteCompactSize v =
     (if v < 253 then [of_nat v]
      else if v \<le> 65535 then 253 # le_bytes 2 v
      else if v \<le> 4294967295 then 254 # le_bytes 4 v
      else 255 # le_bytes 8 v)"

definition ReadCompactSize :: "bytes \<Rightarrow> psbt_error + nat \<times> bytes" where
  "ReadCompactSize s =
     (case s of
        [] \<Rightarrow> Inl UnexpectedEof
      | b # r \<Rightarrow>
          if b < 253 then Inr (unat b, r)
          else if b = 253 then
            (case read_le 2 r of
               Inl e \<Rightarrow> Inl e
             | Inr (v, r') \<Rightarrow> if v < 253 then Inl NonCanonicalCompactSize else Inr (v, r'))
          else if b = 254 then
            (case read_le 4 r of
               Inl e \<Rightarrow> Inl e
             | Inr (v, r') \<Rightarrow> if v < 65536 then Inl NonCanonicalCompactSize else Inr (v, r'))
          else
            (case read_le 8 r of
               Inl e \<Rightarrow> Inl e
             | Inr (v, r') \<Rightarrow>
                 if v < 4294967296 then Inl NonCanonicalCompactSize else Inr (v, r')))"

text \<open>
  \<open>s << v\<close> for a byte vector or a script: its length as a compact size, then its bytes.
\<close>

definition ser_vector :: "bytes \<Rightarrow> bytes" where
  "ser_vector v = WriteCompactSize (length v) @ v"

subsection \<open>Maps\<close>

text \<open>
  A \<open>std::map\<close> is the list of its entries in ascending key order (byte vectors compare
  lexicographically, and so do hashes and public keys of one length). \<open>emplace\<close> inserts
  nothing when the key is already there.
\<close>

type_synonym ('k, 'v) cpp_map = "('k \<times> 'v) list"

fun emplace :: "'k::linorder \<Rightarrow> 'v \<Rightarrow> ('k, 'v) cpp_map \<Rightarrow> ('k, 'v) cpp_map" where
  "emplace k v [] = [(k, v)]"
| "emplace k v ((k', v') # m) =
     (if k = k' then (k', v') # m
      else if k < k' then (k, v) # (k', v') # m
      else (k', v') # emplace k v m)"

subsection \<open>The PSBT structures\<close>

definition PSBT_MAGIC_BYTES :: nat where
  "PSBT_MAGIC_BYTES = 0x74627370"

definition PSBT_UNSIGNED_TX_NON_WITNESS_UTXO :: byte where
  "PSBT_UNSIGNED_TX_NON_WITNESS_UTXO = 0x00"

definition PSBT_REDEEMSCRIPT_WITNESS_UTXO :: byte where
  "PSBT_REDEEMSCRIPT_WITNESS_UTXO = 0x01"

definition PSBT_WITNESSSCRIPT_PARTIAL_SIG :: byte where
  "PSBT_WITNESSSCRIPT_PARTIAL_SIG = 0x02"

definition PSBT_BIP32_KEYPATH_SIGHASH :: byte where
  "PSBT_BIP32_KEYPATH_SIGHASH = 0x03"

definition PSBT_NUM_IN_VIN :: byte where
  "PSBT_NUM_IN_VIN = 0x04"

definition PSBT_SEPARATOR :: byte where
  "PSBT_SEPARATOR = 0x00"

text \<open>
  \<open>PartiallySignedInput\<close>. \<open>non_witness_utxo\<close> is a \<open>CTransactionRef\<close>, which may be
  null. A public key is the bytes of the key suffix it was read from. The fields
  \<open>unknown\<close> and \<open>use_in_index\<close> carry the prefix \<open>in_\<close> here, because the transaction
  has fields of the same names.
\<close>

record PartiallySignedInput =
  non_witness_utxo :: "CMutableTransaction option"
  witness_utxo :: CTxOut
  partial_sigs :: "(bytes, bytes) cpp_map"
  in_unknown :: "(bytes, bytes) cpp_map"
  sighash_type :: "32 word"
  index :: "64 word"
  in_use_in_index :: bool

text \<open>
  The default-constructed input: a null \<open>CTxOut\<close> has \<open>nValue = -1\<close>.
  Modelled from the spec: \<open>SetNull\<close> is defined in script/sign.cpp, which is not among
  the sources; after appending an input the parser starts the next one, so \<open>SetNull\<close>
  gives the default-constructed input back.
\<close>

definition CTxOut_null :: CTxOut where
  "CTxOut_null = \<lparr>nValue = - 1, scriptPubKey = []\<rparr>"

definition PartiallySignedInput_new :: PartiallySignedInput where
  "PartiallySignedInput_new =
     \<lparr>non_witness_utxo = None, witness_utxo = CTxOut_null, partial_sigs = [], in_unknown = [],
      sighash_type = 0, index = 0, in_use_in_index = False\<rparr>"

definition SetNull :: "PartiallySignedInput \<Rightarrow> PartiallySignedInput" where
  "SetNull i = PartiallySignedInput_new"

record PartiallySignedTransaction =
  tx :: CMutableTransaction
  redeem_scripts :: "(bytes, bytes) cpp_map"
  witness_scripts :: "(bytes, bytes) cpp_map"
  inputs :: "PartiallySignedInput list"
  unknown :: "(bytes, bytes) cpp_map"
  hd_keypaths :: "(bytes, 32 word list) cpp_map"
  num_ins :: "64 word"
  use_in_index :: bool

text \<open>
  The default-constructed PSBT. Its transaction is the default \<open>CMutableTransaction\<close>:
  no inputs, no outputs, lock time 0 and the current version, 2.
\<close>

definition CMutableTransaction_new :: CMutableTransaction where
  "CMutableTransaction_new = \<lparr>nVersion = 2, vin = [], vout = [], nLockTime = 0\<rparr>"

definition PartiallySignedTransaction_new :: PartiallySignedTransaction where
  "PartiallySignedTransaction_new =
     \<lparr>tx = CMutableTransaction_new, redeem_scripts = [], witness_scripts = [], inputs = [],
      unknown = [], hd_keypaths = [], num_ins = 0, use_in_index = False\<rparr>"

subsection \<open>Serialize\<close>

definition tx_IsNull :: "CMutableTransaction \<Rightarrow> bool" where
  "tx_IsNull t \<longleftrightarrow> vin t = [] \<and> vout t = []"

definition txout_IsNull :: "CTxOut \<Rightarrow> bool" where
  "txout_IsNull out \<longleftrightarrow> nValue out = - 1"

text \<open>The records of one input (script/sign.h:177-215).\<close>

definition Serialize_input ::
  "primitives \<Rightarrow> bool \<Rightarrow> CTxIn \<Rightarrow> PartiallySignedInput \<Rightarrow> bytes" where
  "Serialize_input P use_index txin psbt_in =
     (if scriptSig txin = [] \<and> scriptWitness txin = [] then
        (case non_witness_utxo psbt_in of
           Some prev \<Rightarrow>
             ser_vector [PSBT_UNSIGNED_TX_NON_WITNESS_UTXO] @ ser_vector (ser_tx P prev)
         | None \<Rightarrow>
             if txout_IsNull (witness_utxo psbt_in) then []
             else ser_vector [PSBT_REDEEMSCRIPT_WITNESS_UTXO]
                  @ ser_vector (ser_txout P (witness_utxo psbt_in)))
        @ concat (map (\<lambda>(pubkey, sig).
                    ser_vector (PSBT_WITNESSSCRIPT_PARTIAL_SIG # pubkey) @ ser_vector sig)
                  (partial_sigs psbt_in))
        @ (if 0 < sint (sighash_type psbt_in)
           then ser_vector [PSBT_BIP32_KEYPATH_SIGHASH]
                @ ser_vector (le_bytes 4 (unat (sighash_type psbt_in)))
           else [])
        @ (if use_index
           then ser_vector [PSBT_NUM_IN_VIN]
                @ ser_vector (WriteCompactSize (unat (index psbt_in)))
           else [])
      else [])
     @ concat (map (\<lambda>(k, v). ser_vector k @ ser_vector v) (in_unknown psbt_in))
     @ [PSBT_SEPARATOR]"

text \<open>
  The loop over \<open>tx.vin\<close>: \<open>inputs[i]\<close> past the end of \<open>inputs\<close> is undefined, which is
  the result \<open>None\<close>.
\<close>

fun Serialize_inputs ::
  "primitives \<Rightarrow> bool \<Rightarrow> CTxIn list \<Rightarrow> PartiallySignedInput list \<Rightarrow> bytes option" where
  "Serialize_inputs P use_index [] ins = Some []"
| "Serialize_inputs P use_index (txin # txins) [] = None"
| "Serialize_inputs P use_index (txin # txins) (psbt_in # ins) =
     (case Serialize_inputs P use_index txins ins of
        None \<Rightarrow> None
      | Some rest \<Rightarrow> Some (Serialize_input P use_index txin psbt_in @ rest))"

definition Serialize_globals :: "primitives \<Rightarrow> PartiallySignedTransaction \<Rightarrow> bytes" where
  "Serialize_globals P x =
     le_bytes 4 PSBT_MAGIC_BYTES @ [0xff]
     @ (if tx_IsNull (tx x) then []
        else ser_vector [PSBT_UNSIGNED_TX_NON_WITNESS_UTXO] @ ser_vector (ser_tx P (tx x)))
     @ concat (map (\<lambda>(h, script).
                 ser_vector (PSBT_REDEEMSCRIPT_WITNESS_UTXO # h) @ ser_vector script)
               (redeem_scripts x))
     @ concat (map (\<lambda>(h, script).
                 ser_vector (PSBT_WITNESSSCRIPT_PARTIAL_SIG # h) @ ser_vector script)
               (witness_scripts x))
     @ concat (map (\<lambda>(pubkey, path).
                 ser_vector (PSBT_BIP32_KEYPATH_SIGHASH # pubkey)
                 @ WriteCompactSize (length path * 4)
                 @ concat (map (\<lambda>w. le_bytes 4 (unat w)) path))
               (hd_keypaths x))
     @ (if 0 < num_ins x
        then ser_vector [PSBT_NUM_IN_VIN] @ ser_vector (WriteCompactSize (unat (num_ins x)))
        else [])
     @ concat (map (\<lambda>(k, v). ser_vector k @ ser_vector v) (unknown x))
     @ [PSBT_SEPARATOR]"

definition Serialize :: "primitives \<Rightarrow> PartiallySignedTransaction \<Rightarrow> bytes option" where
  "Serialize P x =
     (case Serialize_inputs P (use_in_index x) (vin (tx x)) (inputs x) of
        None \<Rightarrow> None
      | Some ins \<Rightarrow> Some (Serialize_globals P x @ ins))"

subsection \<open>Unserialize\<close>

text \<open>
  The object being filled (\<open>*this\<close>) and the locals of the read loop
  (script/sign.h:236-239).
\<close>

record parser =
  psbt :: PartiallySignedTransaction
  separators :: "32 word"
  input :: PartiallySignedInput
  in_globals :: bool

text \<open>
  A key of length 0 is the separator (script/sign.h:250-275). \<open>s\<close> is the stream after
  the separator byte.
\<close>

definition on_separator :: "parser \<Rightarrow> bytes \<Rightarrow> psbt_error + parser \<times> bytes" where
  "on_separator st s =
     (let st1 = st\<lparr>in_globals := False\<rparr> in
      case (if 0 < separators st1 then
              (if \<not> use_in_index (psbt st1) \<and> \<not> in_use_in_index (input st1)
               then Inl IndexPolicyViolation
               else Inr (st1\<lparr>
                      psbt := (psbt st1)\<lparr>inputs := inputs (psbt st1) @ [input st1]\<rparr>,
                      input := (SetNull (input st1))\<lparr>index := ucast (separators st1 - 1)\<rparr>\<rparr>))
            else Inr st1) of
        Inl e \<Rightarrow> Inl e
      | Inr st2 \<Rightarrow>
          (let st3 = st2\<lparr>separators := separators st2 + 1\<rparr> in
           if s = [] \<and> ucast (separators st3 - 1) = num_ins (psbt st3)
           then Inl UnexpectedInputCount
           else Inr (st3, s)))"

text \<open>\<open>case PSBT_UNSIGNED_TX_NON_WITNESS_UTXO\<close> (script/sign.h:292-308).\<close>

definition case_unsigned_tx_non_witness_utxo ::
  "primitives \<Rightarrow> parser \<Rightarrow> bytes \<Rightarrow> psbt_error + parser \<times> bytes" where
  "case_unsigned_tx_non_witness_utxo P st s =
     (case unser_tx P s of
        None \<Rightarrow> Inl MalformedEmbeddedTransaction
      | Some (t, k) \<Rightarrow>
          if in_globals st then Inr (st\<lparr>psbt := (psbt st)\<lparr>tx := t\<rparr>\<rparr>, drop k s)
          else if unat (index (input st)) < length (vin (tx (psbt st))) then
            (if op_hash (prevout (vin (tx (psbt st)) ! unat (index (input st)))) = GetHash P t
             then Inr (st\<lparr>input := (input st)\<lparr>non_witness_utxo := Some t\<rparr>\<rparr>, drop k s)
             else Inl UtxoMismatch)
          else Inl VinIndexOutOfRange)"

text \<open>\<open>case PSBT_REDEEMSCRIPT_WITNESS_UTXO\<close> (script/sign.h:310-345).\<close>

definition case_redeemscript_witness_utxo ::
  "primitives \<Rightarrow> parser \<Rightarrow> bytes \<Rightarrow> nat \<Rightarrow> bytes \<Rightarrow> psbt_error + parser \<times> bytes" where
  "case_redeemscript_witness_utxo P st key value_len s =
     (if in_globals st then
        (if length key = 21 then
           (case read_bytes value_len s of
              Inl e \<Rightarrow> Inl e
            | Inr (redeemscript_bytes, r) \<Rightarrow>
                if tl key = Hash160 P redeemscript_bytes then
                  Inr (st\<lparr>psbt := (psbt st)\<lparr>redeem_scripts :=
                         emplace (tl key) redeemscript_bytes (redeem_scripts (psbt st))\<rparr>\<rparr>, r)
                else Inl (HashMismatch PSBT_REDEEMSCRIPT_WITNESS_UTXO))
         else Inl (BadKeyLength PSBT_REDEEMSCRIPT_WITNESS_UTXO))
      else
        (case unser_txout P s of
           None \<Rightarrow> Inl MalformedEmbeddedTransaction
         | Some (out, k) \<Rightarrow> Inr (st\<lparr>input := (input st)\<lparr>witness_utxo := out\<rparr>\<rparr>, drop k s)))"

text \<open>\<open>case PSBT_WITNESSSCRIPT_PARTIAL_SIG\<close> (script/sign.h:347-391).\<close>

definition case_witnessscript_partial_sig ::
  "primitives \<Rightarrow> parser \<Rightarrow> bytes \<Rightarrow> nat \<Rightarrow> bytes \<Rightarrow> psbt_error + parser \<times> bytes" where
  "case_witnessscript_partial_sig P st key value_len s =
     (if in_globals st then
        (if length key = 33 then
           (case read_bytes value_len s of
              Inl e \<Rightarrow> Inl e
            | Inr (witnessscript_bytes, r) \<Rightarrow>
                if tl key = SHA256 P witnessscript_bytes then
                  Inr (st\<lparr>psbt := (psbt st)\<lparr>witness_scripts :=
                         emplace (tl key) witnessscript_bytes (witness_scripts (psbt st))\<rparr>\<rparr>, r)
                else Inl (HashMismatch PSBT_WITNESSSCRIPT_PARTIAL_SIG))
         else Inl (BadKeyLength PSBT_WITNESSSCRIPT_PARTIAL_SIG))
      else
        (if length key = 66 \<or> length key = 34 then
           (case read_bytes value_len s of
              Inl e \<Rightarrow> Inl e
            | Inr (sig, r) \<Rightarrow>
                Inr (st\<lparr>input := (input st)\<lparr>partial_sigs :=
                       emplace (tl key) sig (partial_sigs (input st))\<rparr>\<rparr>, r))
         else Inl (BadKeyLength PSBT_WITNESSSCRIPT_PARTIAL_SIG)))"

text \<open>
  The key path loop \<open>for (unsigned int i = 0; i < value_len; i += sizeof(uint32_t))\<close>
  reads one \<open>uint32_t\<close> per round. When \<open>value_len\<close> is above \<open>2^32 - 4\<close> the 32-bit
  counter wraps around before it reaches \<open>value_len\<close>, and the loop reads until the
  stream throws.
\<close>

fun read_u32s :: "nat \<Rightarrow> bytes \<Rightarrow> psbt_error + 32 word list \<times> bytes" where
  "read_u32s k s =
     (if k = 0 then Inr ([], s)
      else
        (case read_le 4 s of
           Inl e \<Rightarrow> Inl e
         | Inr (v, r) \<Rightarrow>
             (case read_u32s (k - 1) r of
                Inl e \<Rightarrow> Inl e
              | Inr (vs, r') \<Rightarrow> Inr (of_nat v # vs, r'))))"

declare read_u32s.simps [simp del]

definition read_keypath :: "nat \<Rightarrow> bytes \<Rightarrow> psbt_error + 32 word list \<times> bytes" where
  "read_keypath value_len s =
     (if 4294967292 < value_len then Inl UnexpectedEof
      else read_u32s ((value_len + 3) div 4) s)"

text \<open>\<open>case PSBT_BIP32_KEYPATH_SIGHASH\<close> (script/sign.h:393-418).\<close>

definition case_bip32_keypath_sighash ::
  "parser \<Rightarrow> bytes \<Rightarrow> nat \<Rightarrow> bytes \<Rightarrow> psbt_error + parser \<times> bytes" where
  "case_bip32_keypath_sighash st key value_len s =
     (if in_globals st then
        (if length key = 66 \<or> length key = 34 then
           (case read_keypath value_len s of
              Inl e \<Rightarrow> Inl e
            | Inr (keypath, r) \<Rightarrow>
                Inr (st\<lparr>psbt := (psbt st)\<lparr>hd_keypaths :=
                       emplace (tl key) keypath (hd_keypaths (psbt st))\<rparr>\<rparr>, r))
         else Inl (BadKeyLength PSBT_BIP32_KEYPATH_SIGHASH))
      else
        (case read_le 4 s of
           Inl e \<Rightarrow> Inl e
         | Inr (v, r) \<Rightarrow> Inr (st\<lparr>input := (input st)\<lparr>sighash_type := of_nat v\<rparr>\<rparr>, r)))"

text \<open>
  \<open>case PSBT_NUM_IN_VIN\<close> (script/sign.h:420-434). The input's index is read with
  \<open>s >> input.index\<close>, eight bytes. The case has no \<open>break\<close>.
\<close>

definition case_num_in_vin :: "parser \<Rightarrow> bytes \<Rightarrow> psbt_error + parser \<times> bytes" where
  "case_num_in_vin st s =
     (if in_globals st then
        (case ReadCompactSize s of
           Inl e \<Rightarrow> Inl e
         | Inr (v, r) \<Rightarrow> Inr (st\<lparr>psbt := (psbt st)\<lparr>num_ins := of_nat v\<rparr>\<rparr>, r))
      else if \<not> use_in_index (psbt st) \<and> separators st \<noteq> 1 then Inl IndexPolicyViolation
      else
        (case read_le 8 s of
           Inl e \<Rightarrow> Inl e
         | Inr (v, r) \<Rightarrow>
             Inr (st\<lparr>input := (input st)\<lparr>index := of_nat v, in_use_in_index := True\<rparr>,
                     psbt := (psbt st)\<lparr>use_in_index := True\<rparr>\<rparr>, r)))"

text \<open>\<open>default\<close> (script/sign.h:436-448).\<close>

definition case_default :: "parser \<Rightarrow> bytes \<Rightarrow> nat \<Rightarrow> bytes \<Rightarrow> psbt_error + parser \<times> bytes" where
  "case_default st key value_len s =
     (case read_bytes value_len s of
        Inl e \<Rightarrow> Inl e
      | Inr (val_bytes, r) \<Rightarrow>
          if in_globals st
          then Inr (st\<lparr>psbt := (psbt st)\<lparr>unknown := emplace key val_bytes (unknown (psbt st))\<rparr>\<rparr>, r)
          else Inr (st\<lparr>input := (input st)\<lparr>in_unknown :=
                      emplace key val_bytes (in_unknown (input st))\<rparr>\<rparr>, r))"

text \<open>
  The \<open>switch\<close> on the type, the first byte of the key. \<open>PSBT_NUM_IN_VIN\<close> falls
  through into \<open>default\<close>.
\<close>

definition switch_type ::
  "primitives \<Rightarrow> parser \<Rightarrow> bytes \<Rightarrow> nat \<Rightarrow> bytes \<Rightarrow> psbt_error + parser \<times> bytes" where
  "switch_type P st key value_len s =
     (if hd key = PSBT_UNSIGNED_TX_NON_WITNESS_UTXO then case_unsigned_tx_non_witness_utxo P st s
      else if hd key = PSBT_REDEEMSCRIPT_WITNESS_UTXO
        then case_redeemscript_witness_utxo P st key value_len s
      else if hd key = PSBT_WITNESSSCRIPT_PARTIAL_SIG
        then case_witnessscript_partial_sig P st key value_len s
      else if hd key = PSBT_BIP32_KEYPATH_SIGHASH
        then case_bip32_keypath_sighash st key value_len s
      else if hd key = PSBT_NUM_IN_VIN then
        (case case_num_in_vin st s of
           Inl e \<Rightarrow> Inl e
         | Inr (st', r) \<Rightarrow> case_default st' key value_len r)
      else case_default st key value_len s)"

text \<open>
  One round of the read loop (script/sign.h:240-450). The key is read only when its
  length is at least 1, so its first byte exists.
\<close>

definition psbt_record :: "primitives \<Rightarrow> parser \<Rightarrow> bytes \<Rightarrow> psbt_error + parser \<times> bytes" where
  "psbt_record P st s =
     (case ReadCompactSize s of
        Inl e \<Rightarrow> Inl e
      | Inr (key_len, s1) \<Rightarrow>
          if key_len = 0 then on_separator st s1
          else
            (case read_bytes key_len s1 of
               Inl e \<Rightarrow> Inl e
             | Inr (key, s2) \<Rightarrow>
                 (case ReadCompactSize s2 of
                    Inl e \<Rightarrow> Inl e
                  | Inr (value_len, s3) \<Rightarrow> switch_type P st key value_len s3)))"

lemma read_bytes_length: "read_bytes k s = Inr (b, r) \<Longrightarrow> length r \<le> length s"
  by (auto simp: read_bytes_def split: if_splits)

lemma read_le_length: "read_le k s = Inr (v, r) \<Longrightarrow> length r \<le> length s"
  by (auto simp: read_le_def split: sum.splits dest: read_bytes_length)

lemma ReadCompactSize_length: "ReadCompactSize s = Inr (v, r) \<Longrightarrow> length r < length s"
  by (cases s) (auto simp: ReadCompactSize_def split: if_splits sum.splits dest!: read_le_length)

lemma read_u32s_length: "read_u32s k s = Inr (vs, r) \<Longrightarrow> length r \<le> length s"
proof (induction k s arbitrary: vs r rule: read_u32s.induct)
  case (1 k s)
  show ?case
  proof (cases "k = 0")
    case True
    with "1.prems" show ?thesis by (simp add: read_u32s.simps)
  next
    case False
    with "1.prems" obtain v r1 vs' where a: "read_le 4 s = Inr (v, r1)"
      and b: "read_u32s (k - 1) r1 = Inr (vs', r)"
      by (auto simp: read_u32s.simps[of k s] split: sum.splits)
    from "1.IH"[OF False _ _ b, of "(v, r1)" v] a read_le_length[OF a] show ?thesis by simp
  qed
qed

lemma on_separator_length: "on_separator st s = Inr (st', r) \<Longrightarrow> length r \<le> length s"
  by (auto simp: on_separator_def Let_def split: if_splits sum.splits)

lemma case_default_length: "case_default st key n s = Inr (st', r) \<Longrightarrow> length r \<le> length s"
  by (auto simp: case_default_def split: if_splits sum.splits dest: read_bytes_length)

lemma case_num_in_vin_length: "case_num_in_vin st s = Inr (st', r) \<Longrightarrow> length r \<le> length s"
  by (auto simp: case_num_in_vin_def split: if_splits sum.splits
           dest: read_le_length ReadCompactSize_length)

lemmas PSBT_type_defs =
  PSBT_UNSIGNED_TX_NON_WITNESS_UTXO_def PSBT_REDEEMSCRIPT_WITNESS_UTXO_def
  PSBT_WITNESSSCRIPT_PARTIAL_SIG_def PSBT_BIP32_KEYPATH_SIGHASH_def PSBT_NUM_IN_VIN_def

lemma switch_type_length:
  assumes "switch_type P st key n s = Inr (st', r)"
  shows "length r \<le> length s"
proof (cases "hd key = PSBT_NUM_IN_VIN")
  case True
  with assms obtain st1 r1 where a: "case_num_in_vin st s = Inr (st1, r1)"
    and b: "case_default st1 key n r1 = Inr (st', r)"
    by (auto simp: switch_type_def PSBT_type_defs split: sum.splits)
  from case_num_in_vin_length[OF a] case_default_length[OF b] show ?thesis by simp
next
  case False
  with assms show ?thesis
    by (auto simp: switch_type_def case_unsigned_tx_non_witness_utxo_def
                   case_redeemscript_witness_utxo_def case_witnessscript_partial_sig_def
                   case_bip32_keypath_sighash_def read_keypath_def
             split: if_splits sum.splits option.splits
             dest: read_bytes_length read_le_length read_u32s_length case_default_length)
qed

lemma psbt_record_length:
  assumes "psbt_record P st s = Inr (st', r)"
  shows "length r < length s"
proof -
  from assms obtain key_len s1 where k: "ReadCompactSize s = Inr (key_len, s1)"
    by (auto simp: psbt_record_def split: sum.splits)
  note l1 = ReadCompactSize_length[OF k]
  show ?thesis
  proof (cases "key_len = 0")
    case True
    with assms k have "on_separator st s1 = Inr (st', r)" by (simp add: psbt_record_def)
    from on_separator_length[OF this] l1 show ?thesis by simp
  next
    case False
    with assms k obtain key s2 value_len s3 where a: "read_bytes key_len s1 = Inr (key, s2)"
      and b: "ReadCompactSize s2 = Inr (value_len, s3)"
      and c: "switch_type P st key value_len s3 = Inr (st', r)"
      by (auto simp: psbt_record_def split: sum.splits)
    from read_bytes_length[OF a] ReadCompactSize_length[OF b] switch_type_length[OF c] l1
    show ?thesis by simp
  qed
qed

text \<open>The loop \<open>while (!s.empty())\<close>.\<close>

function psbt_loop :: "primitives \<Rightarrow> parser \<Rightarrow> bytes \<Rightarrow> psbt_error + parser" where
  "psbt_loop P st s =
     (if s = [] then Inr st
      else
        (case psbt_record P st s of
           Inl e \<Rightarrow> Inl e
         | Inr (st', r) \<Rightarrow> psbt_loop P st' r))"
  by pat_completeness auto
termination
  by (relation "measure (\<lambda>(P, st, s). length s)") (auto dest: psbt_record_length)

declare psbt_loop.simps [simp del]

text \<open>
  \<open>Unserialize\<close>, called on the object \<open>x\<close>. The byte after the magic is read into
  \<open>magic_sep\<close> and not looked at again.
\<close>

definition Unserialize ::
  "primitives \<Rightarrow> PartiallySignedTransaction \<Rightarrow> bytes \<Rightarrow> psbt_error + PartiallySignedTransaction" where
  "Unserialize P x s =
     (case read_le 4 s of
        Inl e \<Rightarrow> Inl e
      | Inr (magic, s1) \<Rightarrow>
          if magic = PSBT_MAGIC_BYTES then
            (case read_bytes 1 s1 of
               Inl e \<Rightarrow> Inl e
             | Inr (magic_sep, s2) \<Rightarrow>
                 (case psbt_loop P
                         \<lparr>psbt = x, separators = 0,
                          input = PartiallySignedInput_new\<lparr>index := 0\<rparr>, in_globals = True\<rparr> s2 of
                    Inl e \<Rightarrow> Inl e
                  | Inr st \<Rightarrow> Inr (psbt st)))
          else Inl InvalidMagic)"

text \<open>
  The deserializing constructor (script/sign.h:453-456): \<open>Unserialize\<close> on a
  default-constructed object.
\<close>

definition deserialize ::
  "primitives \<Rightarrow> bytes \<Rightarrow> psbt_error + PartiallySignedTransaction" where
  "deserialize P s = Unserialize P PartiallySignedTransaction_new s"

section \<open>Vocabulary of the properties\<close>

subsection \<open>Selections and invariants of the coin selectors\<close>

text \<open>
  The sum of \<open>f\<close> over the coins of a pool whose flag is set in a selection vector
  (\<open>curr_selection\<close>, \<open>best_selection\<close>, \<open>vfIncluded\<close>, \<open>vfBest\<close>). With an \<open>f\<close> that
  returns amounts it is the sum as the code computes it, modulo \<open>2^64\<close>; with an \<open>f\<close>
  that returns integers it is the sum of the numbers.
\<close>

fun selected_sum :: "(CInputCoin \<Rightarrow> 'a::ab_group_add) \<Rightarrow> CInputCoin list \<Rightarrow> bool list \<Rightarrow> 'a" where
  "selected_sum f (u # us) (b # bs) = (if b then f u else 0) + selected_sum f us bs"
| "selected_sum f us bs = 0"

abbreviation nv :: "CInputCoin \<Rightarrow> CAmount" where
  "nv u \<equiv> nValue (txout u)"

text \<open>An integer that an \<open>int64_t\<close> can hold.\<close>

definition fits_int64 :: "int \<Rightarrow> bool" where
  "fits_int64 x \<longleftrightarrow> - (2 ^ 63) \<le> x \<and> x < 2 ^ 63"

text \<open>
  The invariant of the branch-and-bound loop: \<open>curr_value\<close> is the effective value of
  the current selection, no coin from \<open>depth\<close> on is selected, and a recorded best
  selection is within the target range. Sums and comparisons are those of the code.
\<close>

definition best_ok :: "CInputCoin list \<Rightarrow> CAmount \<Rightarrow> CAmount \<Rightarrow> bnb_state \<Rightarrow> bool" where
  "best_ok us T c st \<longleftrightarrow>
     (best_selection st = [] \<or>
          length (best_selection st) = length us
          \<and> T \<le>s selected_sum effective_value us (best_selection st)
          \<and> selected_sum effective_value us (best_selection st) \<le>s T + c)"

definition bnb_inv :: "CInputCoin list \<Rightarrow> CAmount \<Rightarrow> CAmount \<Rightarrow> bnb_state \<Rightarrow> bool" where
  "bnb_inv us T c st \<longleftrightarrow>
     length (curr_selection st) = length us \<and> 0 \<le> depth st
     \<and> curr_value st = selected_sum effective_value us (curr_selection st)
     \<and> (\<forall>j. depth st \<le> j \<and> nat j < length us \<longrightarrow> \<not> curr_selection st ! nat j)
     \<and> best_ok us T c st"




subsection \<open>The invariant of the script tables\<close>

text \<open>Every script is stored under its own hash.\<close>

definition hash_bound :: "primitives \<Rightarrow> PartiallySignedTransaction \<Rightarrow> bool" where
  "hash_bound P x \<longleftrightarrow>
     (\<forall>h script. (h, script) \<in> set (redeem_scripts x) \<longrightarrow> Hash160 P script = h)
     \<and> (\<forall>h script. (h, script) \<in> set (witness_scripts x) \<longrightarrow> SHA256 P script = h)"

subsection \<open>Example data\<close>

text \<open>
  Three outputs of one transaction as coins; \<open>utxo_c\<close> costs 1 to spend, so its
  effective value is below its value. In the runs below \<open>MAX_MONEY\<close> is 21 million coins,
  its value in amount.h. \<open>example_coin n v\<close> is output \<open>n\<close> of a second transaction,
  with value \<open>v\<close>.
\<close>

definition example_coin :: "32 word \<Rightarrow> CAmount \<Rightarrow> CInputCoin" where
  "example_coin n v = new_CInputCoin [0xbb] n \<lparr>nValue = v, scriptPubKey = []\<rparr>"

definition utxo_a :: CInputCoin where
  "utxo_a = new_CInputCoin [0xaa] 0 \<lparr>nValue = 6, scriptPubKey = []\<rparr>"

definition utxo_b :: CInputCoin where
  "utxo_b = new_CInputCoin [0xaa] 1 \<lparr>nValue = 4, scriptPubKey = []\<rparr>"

definition utxo_c :: CInputCoin where
  "utxo_c = (new_CInputCoin [0xaa] 2 \<lparr>nValue = 3, scriptPubKey = []\<rparr>)
              \<lparr>effective_value := 2, fee := 1, long_term_fee := 1\<rparr>"

text \<open>
  A small instance of the primitives, for running the codec on concrete streams: the
  hashers put the sum of the bytes in front of zeros, a transaction is written as the
  number of its inputs, and an output is never read.
\<close>

definition example_txin :: CTxIn where
  "example_txin = \<lparr>prevout = \<lparr>op_hash = [], op_n = 0\<rparr>, scriptSig = [], nSequence = 0,
                    scriptWitness = []\<rparr>"

definition example_primitives :: primitives where
  "example_primitives =
     \<lparr>Hash160 = (\<lambda>s. sum_list s # [0, 0, 0, 0, 0, 0, 0, 0, 0, 0, 0, 0, 0, 0, 0, 0, 0, 0, 0]),
      SHA256 = (\<lambda>s. sum_list s # [0, 0, 0, 0, 0, 0, 0, 0, 0, 0, 0, 0, 0, 0, 0, 0, 0, 0, 0,
                                   0, 0, 0, 0, 0, 0, 0, 0, 0, 0, 0, 0]),
      GetHash = (\<lambda>t. []),
      ser_tx = (\<lambda>t. [of_nat (length (vin t))]),
      unser_tx = (\<lambda>s. case s of
                          [] \<Rightarrow> None
                        | b # r \<Rightarrow>
                            Some (CMutableTransaction_new\<lparr>vin := replicate (unat b) example_txin\<rparr>,
                                  1)),
      ser_txout = (\<lambda>out. []),
      unser_txout = (\<lambda>s. None)\<rparr>"

section \<open>Properties of coin selection\<close>

subsection \<open>Amounts as signed numbers\<close>

lemma sint_add_exact:
  fixes a b :: CAmount
  assumes "fits_int64 (sint a + sint b)"
  shows "sint (a + b) = sint a + sint b"
  using assms by (simp add: fits_int64_def sint_word_ariths signed_take_bit_int_eq_self)

lemma selected_sum_abs:
  fixes f :: "CInputCoin \<Rightarrow> int"
  shows "\<bar>selected_sum f us bs\<bar> \<le> sum_list (map (\<lambda>u. \<bar>f u\<bar>) us)"
proof (induction f us bs rule: selected_sum.induct)
  case (1 f u us b bs)
  then show ?case by auto
qed (auto intro!: sum_list_nonneg)

lemma sint_selected_sum:
  fixes f :: "CInputCoin \<Rightarrow> CAmount"
  assumes "sum_list (map (\<lambda>u. \<bar>sint (f u)\<bar>) us) < 2 ^ 63"
  shows "sint (selected_sum f us bs) = selected_sum (\<lambda>u. sint (f u)) us bs"
  using assms
proof (induction f us bs rule: selected_sum.induct)
  case (1 f u us b bs)
  have nonneg: "0 \<le> sum_list (map (\<lambda>u. \<bar>sint (f u)\<bar>) us)" by (rule sum_list_nonneg) auto
  with "1.prems" have "sum_list (map (\<lambda>u. \<bar>sint (f u)\<bar>) us) < 2 ^ 63" by simp
  from "1.IH"[OF this]
  have ih: "sint (selected_sum f us bs) = selected_sum (\<lambda>u. sint (f u)) us bs" .
  from selected_sum_abs[of "\<lambda>u. sint (f u)" us bs]
  have rest: "\<bar>selected_sum (\<lambda>u. sint (f u)) us bs\<bar> \<le> sum_list (map (\<lambda>u. \<bar>sint (f u)\<bar>) us)" .
  show ?case
  proof (cases b)
    case False
    with ih show ?thesis by simp
  next
    case True
    from rest "1.prems" have "fits_int64 (sint (f u) + sint (selected_sum f us bs))"
      unfolding ih fits_int64_def by simp linarith
    from sint_add_exact[OF this] True ih show ?thesis by simp
  qed
qed simp_all



subsection \<open>The invariant of the branch-and-bound search\<close>

lemma selected_sum_update:
  "length bs = length us \<Longrightarrow> d < length us \<Longrightarrow>
   selected_sum f us (bs[d := v]) =
     selected_sum f us bs - (if bs ! d then f (us ! d) else 0) + (if v then f (us ! d) else 0)"
proof (induction f us bs arbitrary: d rule: selected_sum.induct)
  case (1 f u us b bs)
  then show ?case by (cases d) auto
qed auto

lemma selected_sum_replicate: "selected_sum f us (replicate k False) = 0"
proof (induction us arbitrary: k)
  case Nil then show ?case by simp
next
  case (Cons u us) then show ?case by (cases k) auto
qed

lemma walk_back_spec:
  "walk_back us sel d a = Returns (d', a') \<Longrightarrow>
     d' \<le> d \<and> (0 \<le> d' \<longrightarrow> nat d' < length sel \<and> sel ! nat d')
     \<and> (\<forall>j. d' < j \<and> j \<le> d \<longrightarrow> \<not> sel ! nat j)
     \<and> (- 1 \<le> d \<longrightarrow> - 1 \<le> d')"
proof (induction us sel d a rule: walk_back.induct)
  case (1 us sel d a)
  show ?case
  proof (cases "0 \<le> d")
    case False
    with "1.prems" show ?thesis by (auto simp: walk_back.simps)
  next
    case True
    show ?thesis
    proof (cases "at sel d")
      case None
      with True "1.prems" show ?thesis by (simp add: walk_back.simps)
    next
      case (Some b)
      then have inr: "nat d < length sel" and b: "b = sel ! nat d"
        by (auto simp: at_def split: if_splits)
      show ?thesis
      proof (cases b)
        case True
        with \<open>0 \<le> d\<close> Some "1.prems" inr b show ?thesis by (auto simp: walk_back.simps)
      next
        case False
        show ?thesis
        proof (cases "at us d")
          case None
          with \<open>0 \<le> d\<close> Some False "1.prems" show ?thesis by (simp add: walk_back.simps)
        next
          case (Some u)
          with \<open>0 \<le> d\<close> \<open>at sel d = Some b\<close> False "1.prems"
          have rec: "walk_back us sel (d - 1) (a + effective_value u) = Returns (d', a')"
            by (simp add: walk_back.simps)
          from "1.IH"[OF \<open>0 \<le> d\<close> \<open>at sel d = Some b\<close> _ Some rec] False
          have ih: "d' \<le> d - 1 \<and> (0 \<le> d' \<longrightarrow> nat d' < length sel \<and> sel ! nat d')
             \<and> (\<forall>j. d' < j \<and> j \<le> d - 1 \<longrightarrow> \<not> sel ! nat j) \<and> (- 1 \<le> d - 1 \<longrightarrow> - 1 \<le> d')"
            by simp
          have "\<forall>j. d' < j \<and> j \<le> d \<longrightarrow> \<not> sel ! nat j"
          proof (intro allI impI)
            fix j assume j: "d' < j \<and> j \<le> d"
            show "\<not> sel ! nat j"
            proof (cases "j = d")
              case True with False b show ?thesis by simp
            next
              case False with j ih show ?thesis by simp
            qed
          qed
          with ih \<open>0 \<le> d\<close> show ?thesis by simp
        qed
      qed
    qed
  qed
qed

lemma bnb_record_best_inv:
  assumes "bnb_inv us T c st" "T \<le>s curr_value st" "curr_value st \<le>s T + c"
  shows "bnb_inv us T c (bnb_record_best T st)"
  using assms by (auto simp: bnb_inv_def best_ok_def bnb_record_best_def Let_def)

lemma bnb_backtrack_inv:
  assumes inv: "bnb_inv us T c st" and res: "bnb_backtrack us st = Returns fl"
  shows "case fl of Continue st' \<Rightarrow> bnb_inv us T c st' | Break st' \<Rightarrow> best_ok us T c st'"
proof -
  from res obtain d a where wb:
    "walk_back us (curr_selection st) (depth st - 1) (curr_available_value st) = Returns (d, a)"
    by (auto simp: bnb_backtrack_def split: outcome.splits)
  from walk_back_spec[OF wb] inv
  have d: "d \<le> depth st - 1" "- 1 \<le> d"
    and sel: "0 \<le> d \<Longrightarrow> nat d < length (curr_selection st) \<and> curr_selection st ! nat d"
    and gap: "\<And>j. d < j \<Longrightarrow> j \<le> depth st - 1 \<Longrightarrow> \<not> curr_selection st ! nat j"
    by (auto simp: bnb_inv_def)
  show ?thesis
  proof (cases "d < 0")
    case True
    with res wb have "fl = Break (st\<lparr>depth := d, curr_available_value := a\<rparr>)"
      by (simp add: bnb_backtrack_def)
    with inv show ?thesis by (simp add: bnb_inv_def best_ok_def)
  next
    case False
    hence d0: "0 \<le> d" by simp
    from sel[OF d0] have inr: "nat d < length (curr_selection st)" and on: "curr_selection st ! nat d"
      by auto
    from inv inr have "nat d < length us" by (simp add: bnb_inv_def)
    with d0 have atu: "at us d = Some (us ! nat d)" by (simp add: at_def)
    from res wb False inr atu have fl: "fl = Continue (st\<lparr>
                   curr_selection := (curr_selection st)[nat d := False],
                   curr_value := curr_value st - effective_value (us ! nat d),
                   curr_waste := curr_waste st - (fee (us ! nat d) - long_term_fee (us ! nat d)),
                   curr_available_value := a,
                   depth := d + 1\<rparr>)"
      by (simp add: bnb_backtrack_def)
    have later: "\<forall>j. d + 1 \<le> j \<and> nat j < length us \<longrightarrow> \<not> (curr_selection st)[nat d := False] ! nat j"
    proof (intro allI impI)
      fix j assume j: "d + 1 \<le> j \<and> nat j < length us"
      hence ne: "nat j \<noteq> nat d" using d0 by auto
      have "\<not> curr_selection st ! nat j"
      proof (cases "j \<le> depth st - 1")
        case True with j gap[of j] show ?thesis by simp
      next
        case False with inv j show ?thesis by (simp add: bnb_inv_def)
      qed
      with ne show "\<not> (curr_selection st)[nat d := False] ! nat j" by simp
    qed
    from inv inr on \<open>nat d < length us\<close>
    have "selected_sum effective_value us ((curr_selection st)[nat d := False])
            = curr_value st - effective_value (us ! nat d)"
      by (simp add: bnb_inv_def selected_sum_update)
    with inv later d0 show ?thesis
      by (simp add: fl bnb_inv_def best_ok_def)
  qed
qed

lemma bnb_forward_inv:
  assumes inv: "bnb_inv us T c st" and res: "bnb_forward us st = Returns fl"
  shows "case fl of Continue st' \<Rightarrow> bnb_inv us T c st' | Break st' \<Rightarrow> best_ok us T c st'"
proof -
  from res obtain u where atu: "at us (depth st) = Some u"
    by (auto simp: bnb_forward_def split: option.splits)
  with inv have inr: "nat (depth st) < length us" and u: "u = us ! nat (depth st)"
    and d0: "0 \<le> depth st"
    by (auto simp: at_def bnb_inv_def split: if_splits)
  from inv inr have off: "\<not> curr_selection st ! nat (depth st)"
    and len: "length (curr_selection st) = length us"
    by (auto simp: bnb_inv_def)
  have sum_on: "selected_sum effective_value us ((curr_selection st)[nat (depth st) := True])
          = curr_value st + effective_value u"
    using inv inr off len u by (simp add: bnb_inv_def selected_sum_update)
  have sum_off: "selected_sum effective_value us ((curr_selection st)[nat (depth st) := False])
          = curr_value st"
    using inv inr off len u by (simp add: bnb_inv_def selected_sum_update)
  have later: "\<And>v. \<forall>j. depth st + 1 \<le> j \<and> nat j < length us \<longrightarrow>
           \<not> (curr_selection st)[nat (depth st) := v] ! nat j"
  proof (intro allI impI)
    fix v j assume j: "depth st + 1 \<le> j \<and> nat j < length us"
    hence ne: "nat j \<noteq> nat (depth st)" using d0 by auto
    from inv j have "\<not> curr_selection st ! nat j" by (simp add: bnb_inv_def)
    with ne show "\<not> (curr_selection st)[nat (depth st) := v] ! nat j" by simp
  qed
  from res atu have "fl = Continue (st\<lparr>
                      curr_selection := (curr_selection st)[nat (depth st) := False],
                      curr_available_value := curr_available_value st - effective_value u,
                      depth := depth st + 1\<rparr>)
     \<or> fl = Continue (st\<lparr>
               curr_available_value := curr_available_value st - effective_value u,
               curr_waste := curr_waste st + (fee u - long_term_fee u),
               curr_selection := (curr_selection st)[nat (depth st) := True],
               curr_value := curr_value st + effective_value u,
               depth := depth st + 1\<rparr>)"
    by (auto simp: bnb_forward_def bnb_skip_def bnb_include_def split: option.splits if_splits)
  then show ?thesis
  proof
    assume "fl = Continue (st\<lparr>
                      curr_selection := (curr_selection st)[nat (depth st) := False],
                      curr_available_value := curr_available_value st - effective_value u,
                      depth := depth st + 1\<rparr>)"
    with inv sum_off later[of False] d0 len show ?thesis
      by (simp add: bnb_inv_def best_ok_def)
  next
    assume "fl = Continue (st\<lparr>
               curr_available_value := curr_available_value st - effective_value u,
               curr_waste := curr_waste st + (fee u - long_term_fee u),
               curr_selection := (curr_selection st)[nat (depth st) := True],
               curr_value := curr_value st + effective_value u,
               depth := depth st + 1\<rparr>)"
    with inv sum_on later[of True] d0 len show ?thesis
      by (simp add: bnb_inv_def best_ok_def)
  qed
qed

lemma bnb_iteration_inv:
  assumes inv: "bnb_inv us T c st" and res: "bnb_iteration us T c st = Returns fl"
  shows "case fl of Continue st' \<Rightarrow> bnb_inv us T c st' | Break st' \<Rightarrow> best_ok us T c st'"
proof -
  from res obtain b where mb: "bnb_must_backtrack us T c st = Returns b"
    by (auto simp: bnb_iteration_def split: outcome.splits)
  show ?thesis
  proof (cases b)
    case True
    with res mb have "bnb_backtrack us st = Returns fl" by (simp add: bnb_iteration_def)
    from bnb_backtrack_inv[OF inv this] show ?thesis .
  next
    case False
    with mb have "\<not> T + c <s curr_value st"
      by (auto simp: bnb_must_backtrack_def split: if_splits option.splits)
    then have range: "curr_value st \<le>s T + c"
      by (simp add: word_sless_alt word_sle_eq)
    show ?thesis
    proof (cases "T \<le>s curr_value st")
      case True
      with res mb False have bt: "bnb_backtrack us (bnb_record_best T st) = Returns fl"
        by (simp add: bnb_iteration_def)
      from bnb_record_best_inv[OF inv True range]
      have "bnb_inv us T c (bnb_record_best T st)" .
      from bnb_backtrack_inv[OF this bt] show ?thesis .
    next
      case F2: False
      with res mb False have "bnb_forward us st = Returns fl" by (simp add: bnb_iteration_def)
      from bnb_forward_inv[OF inv this] show ?thesis .
    qed
  qed
qed

lemma bnb_loop_best_ok:
  "bnb_inv us T c st \<Longrightarrow> bnb_loop us T c i st = Returns st' \<Longrightarrow> best_ok us T c st'"
proof (induction us T c i st rule: bnb_loop.induct)
  case (1 us T c i st)
  show ?case
  proof (cases "i < TOTAL_TRIES")
    case False
    with "1.prems" show ?thesis by (simp add: bnb_loop.simps bnb_inv_def)
  next
    case True
    with "1.prems"(2) obtain fl where it: "bnb_iteration us T c st = Returns fl"
      by (auto simp: bnb_loop.simps[of us T c i st] split: outcome.splits)
    from bnb_iteration_inv[OF "1.prems"(1) it]
    have step: "case fl of Continue s \<Rightarrow> bnb_inv us T c s | Break s \<Rightarrow> best_ok us T c s" .
    show ?thesis
    proof (cases fl)
      case (Break s)
      with True it "1.prems"(2) have "st' = s" by (simp add: bnb_loop.simps[of us T c i st])
      with step Break show ?thesis by simp
    next
      case (Continue s)
      with True it "1.prems"(2) have rec: "bnb_loop us T c (i + 1) s = Returns st'"
        by (simp add: bnb_loop.simps[of us T c i st])
      from step Continue have "bnb_inv us T c s" by simp
      from "1.IH"[OF True it Continue this rec] show ?thesis .
    qed
  qed
qed

lemma emit_selection_sums:
  assumes "length bs = length us" "distinct (map outpoint us)"
    "outpoint ` set s \<inter> outpoint ` set us = {}"
  shows "\<exists>s'. emit_selection us bs (s, v) = Returns (s', v + selected_sum (\<lambda>u. nValue (txout u)) us bs)
           \<and> sum_list (map f s') = sum_list (map f s) + selected_sum f us bs"
  using assms
proof (induction us bs "(s, v)" arbitrary: s v rule: emit_selection.induct)
  case (1 us)
  then show ?case by simp
next
  case (2 b bs)
  then show ?case by simp
next
  case (3 u us b bs s v)
  from "3.prems" have len: "length bs = length us" and dist: "distinct (map outpoint us)"
    and fresh: "outpoint u \<notin> outpoint ` set s" and fresh_us: "outpoint u \<notin> outpoint ` set us"
    and disj: "outpoint ` set s \<inter> outpoint ` set us = {}"
    by auto
  show ?case
  proof (cases b)
    case False
    with "3.hyps"[of s v, OF _ len dist disj] show ?thesis by simp
  next
    case True
    have ins: "set_insert u s = s @ [u]" using fresh by (simp add: set_insert_def)
    have disj': "outpoint ` set (s @ [u]) \<inter> outpoint ` set us = {}"
      using disj fresh_us by auto
    from "3.hyps"[of "s @ [u]" "v + nValue (txout u)", OF _ len dist disj'] True ins
    show ?thesis by (simp add: add.assoc)
  qed
qed

lemma distinct_outpoints_sorted:
  assumes "mset (srt utxo_pool) = mset utxo_pool" "distinct (map outpoint utxo_pool)"
  shows "distinct (map outpoint (srt utxo_pool))"
proof -
  from assms(1) have "mset (map outpoint (srt utxo_pool)) = mset (map outpoint utxo_pool)"
    by (metis mset_map)
  with assms(2) show ?thesis by (metis mset_eq_imp_distinct_iff)
qed

lemma sum_list_map_mset_cong:
  fixes f :: "'a \<Rightarrow> int"
  assumes "mset xs = mset ys"
  shows "sum_list (map f xs) = sum_list (map f ys)"
proof -
  have "sum_list (map f xs) = sum_mset (mset (map f xs))" by (simp only: sum_mset_sum_list)
  also have "\<dots> = sum_mset (mset (map f ys))" using assms by simp
  also have "\<dots> = sum_list (map f ys)" by (simp only: sum_mset_sum_list)
  finally show ?thesis .
qed

lemma SelectCoinsBnB_success:
  assumes run: "SelectCoinsBnB srt MAX_MONEY utxo_pool target_value cost_of_change out_set0
                  value_ret0 not_input_fees = Returns r"
    and ok: "success r"
    and dist: "distinct (map outpoint (srt utxo_pool))"
  shows "\<exists>best. length best = length (srt utxo_pool)
       \<and> not_input_fees + target_value \<le>s selected_sum effective_value (srt utxo_pool) best
       \<and> selected_sum effective_value (srt utxo_pool) best
            \<le>s not_input_fees + target_value + cost_of_change
       \<and> value_ret r = selected_sum nv (srt utxo_pool) best
       \<and> (\<forall>f :: CInputCoin \<Rightarrow> int.
             sum_list (map f (out_set r)) = selected_sum f (srt utxo_pool) best)"
proof -
  let ?T = "not_input_fees + target_value"
  let ?us = "srt utxo_pool"
  let ?st0 = "\<lparr>curr_value = 0, depth = 0,
                 curr_selection = replicate (length ?us) False,
                 curr_available_value = sum_list (map effective_value utxo_pool), curr_waste = 0,
                 best_selection = [], best_waste = MAX_MONEY\<rparr>"
  from run ok have enough: "\<not> sum_list (map effective_value utxo_pool) <s ?T"
    by (auto simp: SelectCoinsBnB_def set_clear_def Let_def split: if_splits)
  with run ok obtain st where loop: "bnb_loop ?us ?T cost_of_change 0 ?st0 = Returns st"
    by (auto simp: SelectCoinsBnB_def set_clear_def Let_def split: outcome.splits)
  with run ok enough have nonempty: "best_selection st \<noteq> []"
    by (auto simp: SelectCoinsBnB_def set_clear_def Let_def split: if_splits)
  have "bnb_inv ?us ?T cost_of_change ?st0"
    by (simp add: bnb_inv_def best_ok_def selected_sum_replicate)
  from bnb_loop_best_ok[OF this loop] nonempty
  have len: "length (best_selection st) = length ?us"
    and lo: "?T \<le>s selected_sum effective_value ?us (best_selection st)"
    and hi: "selected_sum effective_value ?us (best_selection st) \<le>s ?T + cost_of_change"
    by (auto simp: best_ok_def)
  have empty: "outpoint ` set ([]::CInputCoin list) \<inter> outpoint ` set ?us = {}" by simp
  from emit_selection_sums[OF len dist empty, of 0 nv]
  obtain s' where em: "emit_selection ?us (best_selection st) ([], 0)
        = Returns (s', 0 + selected_sum nv ?us (best_selection st))"
    by auto
  have sums: "sum_list (map f s') = selected_sum f ?us (best_selection st)"
    for f :: "CInputCoin \<Rightarrow> int"
    using emit_selection_sums[OF len dist empty, of 0 f] em by auto
  from run enough loop nonempty em
  have r: "r = \<lparr>success = True, out_set = s',
                value_ret = 0 + selected_sum nv ?us (best_selection st),
                pool_after = ?us\<rparr>"
    by (simp add: SelectCoinsBnB_def set_clear_def Let_def)
  show ?thesis
    using len lo hi sums by (intro exI[of _ "best_selection st"]) (simp add: r)
qed

subsection \<open>The knapsack solver returns a sufficient subset\<close>










lemma scan_pool_exact:
  "scan_pool t pool s = Inl coin \<Longrightarrow> coin \<in> set pool \<and> nv coin = t"
  by (induction t pool s rule: scan_pool.induct) (auto split: if_splits)

lemma scan_pool_finds:
  "\<exists>c \<in> set pool. nv c = t \<Longrightarrow> \<exists>coin. scan_pool t pool s = Inl coin"
  by (induction t pool s rule: scan_pool.induct) auto






subsection \<open>Runs on the example pools\<close>

lemmas bnb_eval = SelectCoinsBnB_def set_clear_def bnb_loop.simps bnb_iteration_def
  bnb_must_backtrack_def bnb_record_best_def bnb_backtrack_def walk_back.simps bnb_forward_def
  bnb_skip_def bnb_include_def at_def TOTAL_TRIES_def set_insert_def sort_descending_def
  descending_def new_CInputCoin_def COIN_def Let_def word_sless_alt word_sle_eq

lemmas knapsack_eval = KnapsackSolver_def set_clear_def set_insert_def knapsack_finish_def
  ApproximateBestSubset_def abs_reps.simps abs_trial_def abs_pass_def abs_visit_def
  sort_descending_def descending_def new_CInputCoin_def MIN_CHANGE_def COIN_def Let_def
  word_sless_alt word_sle_eq

lemma mset_insert_descending: "mset (insert_descending x xs) = add_mset x (mset xs)"
  by (induction xs) auto

lemma mset_sort_descending: "mset (sort_descending xs) = mset xs"
  by (induction xs) (auto simp: sort_descending_def mset_insert_descending)

lemma bnb_run_ab:
  "SelectCoinsBnB sort_descending (21000000 * COIN) [utxo_b, utxo_c, utxo_a] 8 0 [utxo_b] 77 0
     = Returns \<lparr>success = True, out_set = [utxo_a, utxo_c], value_ret = 9,
                pool_after = [utxo_a, utxo_b, utxo_c]\<rparr>"
  by (simp add: bnb_eval utxo_a_def utxo_b_def utxo_c_def)

lemma bnb_run_twice:
  "SelectCoinsBnB sort_descending (21000000 * COIN) [utxo_a, utxo_a] 12 0 [] 0 0
     = Returns \<lparr>success = True, out_set = [utxo_a], value_ret = 12,
                pool_after = [utxo_a, utxo_a]\<rparr>"
  by (simp add: bnb_eval utxo_a_def)

lemma bnb_run_fail:
  "SelectCoinsBnB sort_descending (21000000 * COIN) [utxo_a, utxo_b] 9 0 [utxo_b] 77 0
     = Returns \<lparr>success = False, out_set = [], value_ret = 77,
                pool_after = [utxo_a, utxo_b]\<rparr>"
  by (simp add: bnb_eval utxo_a_def utxo_b_def)


lemma knapsack_run_exact:
  "KnapsackSolver id sort_descending (\<lambda>k. True) (\<lambda>k. True) [utxo_c, utxo_b, utxo_a] 4 [utxo_c]
     = \<lparr>success = True, out_set = [utxo_b], value_ret = 4,
        pool_after = [utxo_c, utxo_b, utxo_a]\<rparr>"
  by (simp add: knapsack_eval utxo_a_def utxo_b_def utxo_c_def)


lemma knapsack_run_fail:
  "KnapsackSolver id sort_descending (\<lambda>k. True) (\<lambda>k. True) [utxo_a, utxo_b] 11 [utxo_c]
     = \<lparr>success = False, out_set = [], value_ret = 0, pool_after = [utxo_a, utxo_b]\<rparr>"
  by (simp add: knapsack_eval utxo_a_def utxo_b_def)

lemma example_outpoints_distinct: "distinct (map outpoint [utxo_b, utxo_c, utxo_a])"
  by (simp add: utxo_a_def utxo_b_def utxo_c_def new_CInputCoin_def)

text \<open>
  Runs in which a sum leaves the 64-bit range. Four coins with effective values
  \<open>6 * 2^60\<close> (three times) and \<open>5 * 2^60\<close> and the target \<open>7 * 2^60\<close>: the sum of the
  four is \<open>23 * 2^60\<close>, which a 64-bit word holds as \<open>7 * 2^60\<close>. Two coins of value
  \<open>2^62\<close> and effective value 5. And a target so close to \<open>2^63\<close> that
  \<open>nTargetValue + MIN_CHANGE\<close> is negative.
\<close>

lemma bnb_run_wrapped_sum:
  "SelectCoinsBnB sort_descending (21000000 * COIN)
     [example_coin 0 6917529027641081856, example_coin 1 6917529027641081856,
      example_coin 2 6917529027641081856, example_coin 3 5764607523034234880]
     8070450532247928832 0 [] 0 0
   = Returns \<lparr>success = True,
               out_set = [example_coin 2 6917529027641081856, example_coin 1 6917529027641081856,
                          example_coin 0 6917529027641081856, example_coin 3 5764607523034234880],
               value_ret = 8070450532247928832,
               pool_after = [example_coin 2 6917529027641081856, example_coin 1 6917529027641081856,
                             example_coin 0 6917529027641081856, example_coin 3 5764607523034234880]\<rparr>"
  by (simp add: bnb_eval example_coin_def)

lemma bnb_run_wrapped_value:
  "SelectCoinsBnB sort_descending (21000000 * COIN)
     [(example_coin 0 4611686018427387904)\<lparr>effective_value := 5\<rparr>,
      (example_coin 1 4611686018427387904)\<lparr>effective_value := 5\<rparr>]
     10 0 [] 0 0
   = Returns \<lparr>success = True,
               out_set = [(example_coin 1 4611686018427387904)\<lparr>effective_value := 5\<rparr>,
                          (example_coin 0 4611686018427387904)\<lparr>effective_value := 5\<rparr>],
               value_ret = - 9223372036854775808,
               pool_after = [(example_coin 1 4611686018427387904)\<lparr>effective_value := 5\<rparr>,
                             (example_coin 0 4611686018427387904)\<lparr>effective_value := 5\<rparr>]\<rparr>"
  by (simp add: bnb_eval example_coin_def)


subsection \<open>Branch and bound: the range of the selection\<close>

text \<open>
  C2, as amended. For a pool whose coins have pairwise distinct outpoints and effective
  values whose absolute values sum to less than \<open>2^63\<close>, and for a target such that
  \<open>target_value + not_input_fees\<close> and \<open>target_value + not_input_fees + cost_of_change\<close>
  fit into an \<open>int64_t\<close>: whenever \<open>SelectCoinsBnB\<close> returns success, the sum of
  \<open>effective_value\<close> over the coins of \<open>out_set\<close> lies in the closed interval from
  \<open>actual_target\<close> to \<open>actual_target + cost_of_change\<close>, where
  \<open>actual_target = target_value + not_input_fees\<close>. The sums and the interval are those
  of the integers, not of 64-bit words. The sort is any function that returns a
  permutation of the pool.
\<close>

theorem SelectCoinsBnB_range:
  assumes "SelectCoinsBnB srt MAX_MONEY utxo_pool target_value cost_of_change out_set0 value_ret0
             not_input_fees = Returns r"
    and "success r"
    and "mset (srt utxo_pool) = mset utxo_pool"
    and "distinct (map outpoint utxo_pool)"
    and "sum_list (map (\<lambda>u. \<bar>sint (effective_value u)\<bar>) utxo_pool) < 2 ^ 63"
    and "fits_int64 (sint target_value + sint not_input_fees)"
    and "fits_int64 (sint target_value + sint not_input_fees + sint cost_of_change)"
  shows "sint target_value + sint not_input_fees
            \<le> sum_list (map (\<lambda>u. sint (effective_value u)) (out_set r))
       \<and> sum_list (map (\<lambda>u. sint (effective_value u)) (out_set r))
            \<le> sint target_value + sint not_input_fees + sint cost_of_change"
proof -
  let ?us = "srt utxo_pool"
  from SelectCoinsBnB_success[OF assms(1,2) distinct_outpoints_sorted[of srt utxo_pool, OF assms(3,4)]]
  obtain best where lo: "not_input_fees + target_value \<le>s selected_sum effective_value ?us best"
    and hi: "selected_sum effective_value ?us best \<le>s not_input_fees + target_value + cost_of_change"
    and sums: "\<And>f :: CInputCoin \<Rightarrow> int. sum_list (map f (out_set r)) = selected_sum f ?us best"
    by blast
  have "sum_list (map (\<lambda>u. \<bar>sint (effective_value u)\<bar>) ?us)
          = sum_list (map (\<lambda>u. \<bar>sint (effective_value u)\<bar>) utxo_pool)"
    by (rule sum_list_map_mset_cong[OF assms(3)])
  with assms(5) have bound: "sum_list (map (\<lambda>u. \<bar>sint (effective_value u)\<bar>) ?us) < 2 ^ 63"
    by simp
  note conv = sint_selected_sum[OF bound, of best]
  from assms(6) have "fits_int64 (sint not_input_fees + sint target_value)"
    by (simp add: add.commute)
  from sint_add_exact[OF this]
  have T: "sint (not_input_fees + target_value) = sint target_value + sint not_input_fees"
    by simp
  from assms(7) T have "fits_int64 (sint (not_input_fees + target_value) + sint cost_of_change)"
    by simp
  from sint_add_exact[OF this] T
  have Tc: "sint (not_input_fees + target_value + cost_of_change)
              = sint target_value + sint not_input_fees + sint cost_of_change"
    by simp
  from lo have "sint target_value + sint not_input_fees
                  \<le> selected_sum (\<lambda>u. sint (effective_value u)) ?us best"
    by (simp add: word_sle_eq conv T)
  moreover from hi have "selected_sum (\<lambda>u. sint (effective_value u)) ?us best
                  \<le> sint target_value + sint not_input_fees + sint cost_of_change"
    by (simp add: word_sle_eq conv Tc)
  ultimately show ?thesis by (simp add: sums)
qed

theorem SelectCoinsBnB_range_witness:
  "SelectCoinsBnB sort_descending (21000000 * COIN) [utxo_b, utxo_c, utxo_a] 8 0 [utxo_b] 77 0
     = Returns \<lparr>success = True, out_set = [utxo_a, utxo_c], value_ret = 9,
                pool_after = [utxo_a, utxo_b, utxo_c]\<rparr>
   \<and> mset (sort_descending [utxo_b, utxo_c, utxo_a]) = mset [utxo_b, utxo_c, utxo_a]
   \<and> distinct (map outpoint [utxo_b, utxo_c, utxo_a])
   \<and> sum_list (map (\<lambda>u. \<bar>sint (effective_value u)\<bar>) [utxo_b, utxo_c, utxo_a]) < 2 ^ 63
   \<and> fits_int64 (sint (8 :: CAmount) + sint (0 :: CAmount))
   \<and> fits_int64 (sint (8 :: CAmount) + sint (0 :: CAmount) + sint (0 :: CAmount))
   \<and> sint (8 :: CAmount) + sint (0 :: CAmount)
        \<le> sum_list (map (\<lambda>u. sint (effective_value u)) [utxo_a, utxo_c])
   \<and> sum_list (map (\<lambda>u. sint (effective_value u)) [utxo_a, utxo_c])
        \<le> sint (8 :: CAmount) + sint (0 :: CAmount) + sint (0 :: CAmount)"
proof -
  have facts: "sum_list (map (\<lambda>u. \<bar>sint (effective_value u)\<bar>) [utxo_b, utxo_c, utxo_a]) < 2 ^ 63"
    "fits_int64 (sint (8 :: CAmount) + sint (0 :: CAmount))"
    "fits_int64 (sint (8 :: CAmount) + sint (0 :: CAmount) + sint (0 :: CAmount))"
    by (simp_all add: fits_int64_def utxo_a_def utxo_b_def utxo_c_def new_CInputCoin_def)
  from SelectCoinsBnB_range[OF bnb_run_ab _ mset_sort_descending example_outpoints_distinct facts]
    bnb_run_ab mset_sort_descending[of "[utxo_b, utxo_c, utxo_a]"] example_outpoints_distinct facts
  show ?thesis by simp
qed

text \<open>
  The claim as stated fails when an outpoint occurs twice in the pool: \<open>out_set\<close> is ordered
  by outpoint and keeps one of the two coins, while the search counted both. It also fails
  when the sum of the selected effective values leaves the 64-bit range: the search
  compares the wrapped sum with the target, and the four coins of the second run are worth
  \<open>23 * 2^60\<close>, far above the target \<open>7 * 2^60\<close>.
\<close>

theorem SelectCoinsBnB_range_counterexample:
  "SelectCoinsBnB sort_descending (21000000 * COIN) [utxo_a, utxo_a] 12 0 [] 0 0
     = Returns \<lparr>success = True, out_set = [utxo_a], value_ret = 12,
                pool_after = [utxo_a, utxo_a]\<rparr>
   \<and> \<not> (sint (12 :: CAmount) + sint (0 :: CAmount)
          \<le> sum_list (map (\<lambda>u. sint (effective_value u)) [utxo_a]))
   \<and> SelectCoinsBnB sort_descending (21000000 * COIN)
       [example_coin 0 6917529027641081856, example_coin 1 6917529027641081856,
        example_coin 2 6917529027641081856, example_coin 3 5764607523034234880]
       8070450532247928832 0 [] 0 0
     = Returns \<lparr>success = True,
                 out_set = [example_coin 2 6917529027641081856, example_coin 1 6917529027641081856,
                            example_coin 0 6917529027641081856, example_coin 3 5764607523034234880],
                 value_ret = 8070450532247928832,
                 pool_after = [example_coin 2 6917529027641081856,
                               example_coin 1 6917529027641081856,
                               example_coin 0 6917529027641081856,
                               example_coin 3 5764607523034234880]\<rparr>
   \<and> distinct (map outpoint
        [example_coin 0 6917529027641081856, example_coin 1 6917529027641081856,
         example_coin 2 6917529027641081856, example_coin 3 5764607523034234880])
   \<and> \<not> (sum_list (map (\<lambda>u. sint (effective_value u))
             [example_coin 2 6917529027641081856, example_coin 1 6917529027641081856,
              example_coin 0 6917529027641081856, example_coin 3 5764607523034234880])
          \<le> sint (8070450532247928832 :: CAmount) + sint (0 :: CAmount) + sint (0 :: CAmount))"
  using bnb_run_twice bnb_run_wrapped_sum
  by (simp add: utxo_a_def example_coin_def new_CInputCoin_def)

subsection \<open>Branch and bound: the returned value\<close>

text \<open>
  C9, as amended. For a pool whose coins have pairwise distinct outpoints and values
  \<open>txout.nValue\<close> whose absolute values sum to less than \<open>2^63\<close>: whenever
  \<open>SelectCoinsBnB\<close> returns success, \<open>value_ret\<close> is the sum over \<open>out_set\<close> of each
  coin's actual value \<open>txout.nValue\<close> (not of its effective value). The sum is that of
  the integers.
\<close>

theorem SelectCoinsBnB_value_ret:
  assumes "SelectCoinsBnB srt MAX_MONEY utxo_pool target_value cost_of_change out_set0 value_ret0
             not_input_fees = Returns r"
    and "success r"
    and "mset (srt utxo_pool) = mset utxo_pool"
    and "distinct (map outpoint utxo_pool)"
    and "sum_list (map (\<lambda>u. \<bar>sint (nValue (txout u))\<bar>) utxo_pool) < 2 ^ 63"
  shows "sint (value_ret r) = sum_list (map (\<lambda>u. sint (nValue (txout u))) (out_set r))"
proof -
  let ?us = "srt utxo_pool"
  from SelectCoinsBnB_success[OF assms(1,2) distinct_outpoints_sorted[of srt utxo_pool, OF assms(3,4)]]
  obtain best where v: "value_ret r = selected_sum nv ?us best"
    and sums: "\<And>f :: CInputCoin \<Rightarrow> int. sum_list (map f (out_set r)) = selected_sum f ?us best"
    by blast
  have "sum_list (map (\<lambda>u. \<bar>sint (nv u)\<bar>) ?us) = sum_list (map (\<lambda>u. \<bar>sint (nv u)\<bar>) utxo_pool)"
    by (rule sum_list_map_mset_cong[OF assms(3)])
  with assms(5) have "sum_list (map (\<lambda>u. \<bar>sint (nv u)\<bar>) ?us) < 2 ^ 63" by simp
  from sint_selected_sum[OF this, of best] v sums show ?thesis by simp
qed

theorem SelectCoinsBnB_value_ret_witness:
  "SelectCoinsBnB sort_descending (21000000 * COIN) [utxo_b, utxo_c, utxo_a] 8 0 [utxo_b] 77 0
     = Returns \<lparr>success = True, out_set = [utxo_a, utxo_c], value_ret = 9,
                pool_after = [utxo_a, utxo_b, utxo_c]\<rparr>
   \<and> mset (sort_descending [utxo_b, utxo_c, utxo_a]) = mset [utxo_b, utxo_c, utxo_a]
   \<and> distinct (map outpoint [utxo_b, utxo_c, utxo_a])
   \<and> sum_list (map (\<lambda>u. \<bar>sint (nValue (txout u))\<bar>) [utxo_b, utxo_c, utxo_a]) < 2 ^ 63
   \<and> sint (9 :: CAmount) = sum_list (map (\<lambda>u. sint (nValue (txout u))) [utxo_a, utxo_c])
   \<and> sum_list (map (\<lambda>u. sint (effective_value u)) [utxo_a, utxo_c]) = 8"
proof -
  have facts: "sum_list (map (\<lambda>u. \<bar>sint (nValue (txout u))\<bar>) [utxo_b, utxo_c, utxo_a]) < 2 ^ 63"
    by (simp add: utxo_a_def utxo_b_def utxo_c_def new_CInputCoin_def)
  from SelectCoinsBnB_value_ret[OF bnb_run_ab _ mset_sort_descending example_outpoints_distinct facts]
    bnb_run_ab mset_sort_descending[of "[utxo_b, utxo_c, utxo_a]"] example_outpoints_distinct facts
  show ?thesis by (simp add: utxo_a_def utxo_c_def new_CInputCoin_def)
qed

text \<open>
  The claim as stated fails when an outpoint occurs twice in the pool, and when the values
  of the selected coins do not add up within the 64-bit range: two coins of value \<open>2^62\<close>
  give \<open>value_ret = -2^63\<close>.
\<close>

theorem SelectCoinsBnB_value_ret_counterexample:
  "SelectCoinsBnB sort_descending (21000000 * COIN) [utxo_a, utxo_a] 12 0 [] 0 0
     = Returns \<lparr>success = True, out_set = [utxo_a], value_ret = 12,
                pool_after = [utxo_a, utxo_a]\<rparr>
   \<and> sint (12 :: CAmount) \<noteq> sum_list (map (\<lambda>u. sint (nValue (txout u))) [utxo_a])
   \<and> SelectCoinsBnB sort_descending (21000000 * COIN)
       [(example_coin 0 4611686018427387904)\<lparr>effective_value := 5\<rparr>,
        (example_coin 1 4611686018427387904)\<lparr>effective_value := 5\<rparr>]
       10 0 [] 0 0
     = Returns \<lparr>success = True,
                 out_set = [(example_coin 1 4611686018427387904)\<lparr>effective_value := 5\<rparr>,
                            (example_coin 0 4611686018427387904)\<lparr>effective_value := 5\<rparr>],
                 value_ret = - 9223372036854775808,
                 pool_after = [(example_coin 1 4611686018427387904)\<lparr>effective_value := 5\<rparr>,
                               (example_coin 0 4611686018427387904)\<lparr>effective_value := 5\<rparr>]\<rparr>
   \<and> distinct (map outpoint
        [(example_coin 0 4611686018427387904)\<lparr>effective_value := 5\<rparr>,
         (example_coin 1 4611686018427387904)\<lparr>effective_value := 5\<rparr>])
   \<and> sint (- 9223372036854775808 :: CAmount)
       \<noteq> sum_list (map (\<lambda>u. sint (nValue (txout u)))
            [(example_coin 1 4611686018427387904)\<lparr>effective_value := 5\<rparr>,
             (example_coin 0 4611686018427387904)\<lparr>effective_value := 5\<rparr>])"
  using bnb_run_twice bnb_run_wrapped_value
  by (simp add: utxo_a_def example_coin_def new_CInputCoin_def)

subsection \<open>Knapsack: sufficiency\<close>




subsection \<open>Knapsack: an exact match is returned alone\<close>

text \<open>
  C8. For every pool that holds a coin whose \<open>txout.nValue\<close> equals \<open>nTargetValue\<close>,
  \<open>KnapsackSolver\<close> succeeds and returns an \<open>out_set\<close> of exactly one such coin, with
  \<open>value_ret\<close> equal to \<open>nTargetValue\<close>. The shuffle is any function that keeps the
  coins of the pool.
\<close>

theorem KnapsackSolver_exact_match:
  assumes "set (shuffle utxo_pool) = set utxo_pool"
    and "\<exists>c \<in> set utxo_pool. nValue (txout c) = nTargetValue"
  shows "\<exists>c \<in> set utxo_pool. nValue (txout c) = nTargetValue
           \<and> success (KnapsackSolver shuffle srt rnd1 rnd2 utxo_pool nTargetValue out_set0)
           \<and> out_set (KnapsackSolver shuffle srt rnd1 rnd2 utxo_pool nTargetValue out_set0) = [c]
           \<and> value_ret (KnapsackSolver shuffle srt rnd1 rnd2 utxo_pool nTargetValue out_set0)
               = nTargetValue"
proof -
  let ?s0 = "\<lparr>coinLowestLarger = None, vValue = [], nTotalLower = 0\<rparr>"
  from assms have "\<exists>c \<in> set (shuffle utxo_pool). nv c = nTargetValue" by simp
  from scan_pool_finds[OF this, of ?s0]
  obtain coin where found: "scan_pool nTargetValue (shuffle utxo_pool) ?s0 = Inl coin" by blast
  from scan_pool_exact[OF found] assms(1)
  have "coin \<in> set utxo_pool" and "nv coin = nTargetValue" by auto
  with found show ?thesis
    by (intro bexI[of _ coin]) (simp_all add: KnapsackSolver_def set_clear_def set_insert_def Let_def)
qed

theorem KnapsackSolver_exact_match_witness:
  "set (id [utxo_c, utxo_b, utxo_a]) = set [utxo_c, utxo_b, utxo_a]
   \<and> utxo_b \<in> set [utxo_c, utxo_b, utxo_a] \<and> nValue (txout utxo_b) = 4
   \<and> KnapsackSolver id sort_descending (\<lambda>k. True) (\<lambda>k. True) [utxo_c, utxo_b, utxo_a] 4 [utxo_c]
       = \<lparr>success = True, out_set = [utxo_b], value_ret = 4,
          pool_after = [utxo_c, utxo_b, utxo_a]\<rparr>"
  using KnapsackSolver_exact_match[of id "[utxo_c, utxo_b, utxo_a]" 4 sort_descending
          "\<lambda>k. True" "\<lambda>k. True" "[utxo_c]"]
    knapsack_run_exact
  by (simp add: utxo_b_def new_CInputCoin_def)

subsection \<open>A failed selection leaves the output set empty\<close>

text \<open>
  C10. For every pool and target, whenever \<open>SelectCoinsBnB\<close> or \<open>KnapsackSolver\<close> returns
  failure, \<open>out_set\<close> is empty on return, whatever it held at the call.
\<close>

theorem failed_selection_out_set_empty:
  "(SelectCoinsBnB srt MAX_MONEY utxo_pool target_value cost_of_change out_set0 value_ret0
      not_input_fees = Returns r \<and> \<not> success r \<longrightarrow> out_set r = [])
   \<and> (\<not> success (KnapsackSolver shuffle srt' rnd1 rnd2 utxo_pool' nTargetValue out_set0') \<longrightarrow>
        out_set (KnapsackSolver shuffle srt' rnd1 rnd2 utxo_pool' nTargetValue out_set0') = [])"
proof (intro conjI impI)
  assume "SelectCoinsBnB srt MAX_MONEY utxo_pool target_value cost_of_change out_set0 value_ret0
            not_input_fees = Returns r \<and> \<not> success r"
  then show "out_set r = []"
    by (auto simp: SelectCoinsBnB_def set_clear_def Let_def
             split: if_splits outcome.splits prod.splits)
next
  let ?r = "KnapsackSolver shuffle srt' rnd1 rnd2 utxo_pool' nTargetValue out_set0'"
  assume fail: "\<not> success ?r"
  have fin: "\<And>cleared pool ll vs best nb t. success (knapsack_finish cleared pool ll vs best nb t)"
    by (auto simp: knapsack_finish_def split: option.splits prod.splits)
  from fail show "out_set ?r = []"
    by (auto simp: KnapsackSolver_def set_clear_def Let_def fin
             split: sum.splits if_splits option.splits prod.splits)
qed

theorem failed_selection_out_set_empty_witness:
  "SelectCoinsBnB sort_descending (21000000 * COIN) [utxo_a, utxo_b] 9 0 [utxo_b] 77 0
     = Returns \<lparr>success = False, out_set = [], value_ret = 77,
                pool_after = [utxo_a, utxo_b]\<rparr>
   \<and> KnapsackSolver id sort_descending (\<lambda>k. True) (\<lambda>k. True) [utxo_a, utxo_b] 11 [utxo_c]
       = \<lparr>success = False, out_set = [], value_ret = 0, pool_after = [utxo_a, utxo_b]\<rparr>"
  using failed_selection_out_set_empty[of sort_descending "21000000 * COIN" "[utxo_a, utxo_b]"
          9 0 "[utxo_b]" 77 0
          "\<lparr>success = False, out_set = [], value_ret = 77, pool_after = [utxo_a, utxo_b]\<rparr>"
          id sort_descending "\<lambda>k. True" "\<lambda>k. True" "[utxo_a, utxo_b]" 11 "[utxo_c]"]
    bnb_run_fail knapsack_run_fail
  by simp

section \<open>Properties of the PSBT codec\<close>

subsection \<open>Compact sizes and little-endian integers\<close>

lemma le_bytes_2: "le_bytes 2 v = [of_nat (v mod 256), of_nat (v div 256 mod 256)]"
proof -
  have "(2::nat) = Suc (Suc 0)" by simp
  then show ?thesis by (simp only: le_bytes.simps)
qed

lemma le_bytes_4:
  "le_bytes 4 v = [of_nat (v mod 256), of_nat (v div 256 mod 256),
                   of_nat (v div 256 div 256 mod 256), of_nat (v div 256 div 256 div 256 mod 256)]"
proof -
  have "(4::nat) = Suc (Suc (Suc (Suc 0)))" by simp
  then show ?thesis by (simp only: le_bytes.simps)
qed

lemma le_val_le_bytes: "le_val (le_bytes k v) = v mod 256 ^ k"
proof (induction k arbitrary: v)
  case 0
  show ?case by simp
next
  case (Suc k)
  have "unat (of_nat (v mod 256) :: byte) = v mod 256"
    by (simp add: unat_of_nat)
  then have "le_val (le_bytes (Suc k) v) = v mod 256 + 256 * (v div 256 mod 256 ^ k)"
    by (simp add: Suc)
  also have "\<dots> = v mod (256 * 256 ^ k)"
    by (simp add: mod_mult2_eq)
  finally show ?case by simp
qed

lemma length_le_bytes: "length (le_bytes k v) = k"
  by (induction k arbitrary: v) auto

lemma read_le_le_bytes:
  "v < 256 ^ k \<Longrightarrow> read_le k (le_bytes k v @ r) = Inr (v, r)"
  by (simp add: read_le_def read_bytes_def length_le_bytes le_val_le_bytes)

lemma ReadCompactSize_small:
  assumes "v < 253"
  shows "ReadCompactSize (WriteCompactSize v @ r) = Inr (v, r)"
proof -
  from assms have "unat (of_nat v :: byte) = v" by (simp add: unat_of_nat)
  moreover from this assms have "(of_nat v :: byte) < 253" by (simp add: word_less_nat_alt)
  ultimately show ?thesis using assms by (simp add: ReadCompactSize_def WriteCompactSize_def)
qed

lemma ReadCompactSize_tagged:
  assumes "read_le k s = Inr (v, r)" "lo \<le> v"
  shows "(case read_le k s of Inl e \<Rightarrow> Inl e
          | Inr (v', r') \<Rightarrow> if v' < lo then Inl NonCanonicalCompactSize else Inr (v', r'))
         = Inr (v, r)"
  using assms by simp

lemma ReadCompactSize_WriteCompactSize:
  assumes "v < 18446744073709551616"
  shows "ReadCompactSize (WriteCompactSize v @ r) = Inr (v, r)"
proof -
  consider (a) "v < 253" | (b) "253 \<le> v" "v \<le> 65535" | (c) "65536 \<le> v" "v \<le> 4294967295"
    | (d) "4294967296 \<le> v"
    by linarith
  then show ?thesis
  proof cases
    case a
    then show ?thesis by (rule ReadCompactSize_small)
  next
    case b
    then have "v < 256 ^ 2" by simp
    from read_le_le_bytes[OF this, of r] have rd: "read_le 2 (le_bytes 2 v @ r) = Inr (v, r)" .
    have w: "WriteCompactSize v = 253 # le_bytes 2 v" using b by (simp add: WriteCompactSize_def)
    show ?thesis unfolding w using ReadCompactSize_tagged[OF rd b(1)]
      by (simp add: ReadCompactSize_def)
  next
    case c
    then have "v < 256 ^ 4" by simp
    from read_le_le_bytes[OF this, of r] have rd: "read_le 4 (le_bytes 4 v @ r) = Inr (v, r)" .
    have w: "WriteCompactSize v = 254 # le_bytes 4 v" using c by (simp add: WriteCompactSize_def)
    show ?thesis unfolding w using ReadCompactSize_tagged[OF rd c(1)]
      by (simp add: ReadCompactSize_def)
  next
    case d
    with assms have "v < 256 ^ 8" by simp
    from read_le_le_bytes[OF this, of r] have rd: "read_le 8 (le_bytes 8 v @ r) = Inr (v, r)" .
    have w: "WriteCompactSize v = 255 # le_bytes 8 v" using d by (simp add: WriteCompactSize_def)
    show ?thesis unfolding w using ReadCompactSize_tagged[OF rd d]
      by (simp add: ReadCompactSize_def)
  qed
qed

lemma read_bytes_append: "read_bytes (length b) (b @ r) = Inr (b, r)"
  by (simp add: read_bytes_def)

lemma ser_vector_read:
  assumes "length b < 18446744073709551616"
  shows "ReadCompactSize (ser_vector b @ r) = Inr (length b, b @ r)"
  using ReadCompactSize_WriteCompactSize[OF assms, of "b @ r"] by (simp add: ser_vector_def)

subsection \<open>The hash-bound maps stay hash-bound\<close>

lemma set_emplace: "set (emplace k v m) \<subseteq> insert (k, v) (set m)"
  by (induction k v m rule: emplace.induct) (auto split: if_splits)

lemma on_separator_bound:
  "on_separator st s = Inr (st', r) \<Longrightarrow> hash_bound P (psbt st) \<Longrightarrow> hash_bound P (psbt st')"
  by (auto simp: on_separator_def Let_def hash_bound_def split: if_splits)

lemma case_default_bound:
  "case_default st key n s = Inr (st', r) \<Longrightarrow> hash_bound P (psbt st)
     \<Longrightarrow> hash_bound P (psbt st')"
  by (auto simp: case_default_def hash_bound_def split: if_splits sum.splits)

lemma case_num_in_vin_bound:
  "case_num_in_vin st s = Inr (st', r) \<Longrightarrow> hash_bound P (psbt st)
     \<Longrightarrow> hash_bound P (psbt st')"
  by (auto simp: case_num_in_vin_def hash_bound_def split: if_splits sum.splits)

lemma case_bip32_keypath_sighash_bound:
  "case_bip32_keypath_sighash st key n s = Inr (st', r) \<Longrightarrow> hash_bound P (psbt st)
     \<Longrightarrow> hash_bound P (psbt st')"
  by (auto simp: case_bip32_keypath_sighash_def hash_bound_def split: if_splits sum.splits)

lemma case_unsigned_tx_non_witness_utxo_bound:
  "case_unsigned_tx_non_witness_utxo P st s = Inr (st', r) \<Longrightarrow> hash_bound P (psbt st)
     \<Longrightarrow> hash_bound P (psbt st')"
  by (auto simp: case_unsigned_tx_non_witness_utxo_def hash_bound_def
           split: if_splits option.splits)

lemma case_redeemscript_witness_utxo_bound:
  assumes "case_redeemscript_witness_utxo P st key n s = Inr (st', r)" "hash_bound P (psbt st)"
  shows "hash_bound P (psbt st')"
proof (cases "in_globals st")
  case False
  with assms show ?thesis
    by (auto simp: case_redeemscript_witness_utxo_def hash_bound_def split: option.splits)
next
  case True
  with assms obtain script where ok: "tl key = Hash160 P script"
    and st': "st' = st\<lparr>psbt := (psbt st)\<lparr>redeem_scripts :=
                      emplace (tl key) script (redeem_scripts (psbt st))\<rparr>\<rparr>"
    by (auto simp: case_redeemscript_witness_utxo_def split: if_splits sum.splits)
  from set_emplace[of "tl key" script "redeem_scripts (psbt st)"] ok assms(2)
  show ?thesis by (auto simp: st' hash_bound_def)
qed

lemma case_witnessscript_partial_sig_bound:
  assumes "case_witnessscript_partial_sig P st key n s = Inr (st', r)" "hash_bound P (psbt st)"
  shows "hash_bound P (psbt st')"
proof (cases "in_globals st")
  case False
  with assms show ?thesis
    by (auto simp: case_witnessscript_partial_sig_def hash_bound_def split: if_splits sum.splits)
next
  case True
  with assms obtain script where ok: "tl key = SHA256 P script"
    and st': "st' = st\<lparr>psbt := (psbt st)\<lparr>witness_scripts :=
                      emplace (tl key) script (witness_scripts (psbt st))\<rparr>\<rparr>"
    by (auto simp: case_witnessscript_partial_sig_def split: if_splits sum.splits)
  from set_emplace[of "tl key" script "witness_scripts (psbt st)"] ok assms(2)
  show ?thesis by (auto simp: st' hash_bound_def)
qed

lemma switch_type_bound:
  assumes "switch_type P st key n s = Inr (st', r)" "hash_bound P (psbt st)"
  shows "hash_bound P (psbt st')"
proof (cases "hd key = PSBT_NUM_IN_VIN")
  case True
  with assms(1) obtain st1 r1 where a: "case_num_in_vin st s = Inr (st1, r1)"
    and b: "case_default st1 key n r1 = Inr (st', r)"
    by (auto simp: switch_type_def PSBT_type_defs split: sum.splits)
  from case_default_bound[OF b case_num_in_vin_bound[OF a assms(2)]] show ?thesis .
next
  case False
  with assms show ?thesis
    by (auto simp: switch_type_def split: if_splits
             dest: case_unsigned_tx_non_witness_utxo_bound case_redeemscript_witness_utxo_bound
                   case_witnessscript_partial_sig_bound case_bip32_keypath_sighash_bound
                   case_default_bound)
qed

lemma psbt_record_bound:
  assumes "psbt_record P st s = Inr (st', r)" "hash_bound P (psbt st)"
  shows "hash_bound P (psbt st')"
proof -
  from assms(1) obtain key_len s1 where k: "ReadCompactSize s = Inr (key_len, s1)"
    by (auto simp: psbt_record_def split: sum.splits)
  show ?thesis
  proof (cases "key_len = 0")
    case True
    with assms(1) k have "on_separator st s1 = Inr (st', r)" by (simp add: psbt_record_def)
    from on_separator_bound[OF this assms(2)] show ?thesis .
  next
    case False
    with assms(1) k obtain key s2 value_len s3 where
      "switch_type P st key value_len s3 = Inr (st', r)"
      by (auto simp: psbt_record_def split: sum.splits)
    from switch_type_bound[OF this assms(2)] show ?thesis .
  qed
qed

lemma psbt_loop_bound:
  "psbt_loop P st s = Inr st' \<Longrightarrow> hash_bound P (psbt st) \<Longrightarrow> hash_bound P (psbt st')"
proof (induction P st s rule: psbt_loop.induct)
  case (1 P st s)
  show ?case
  proof (cases "s = []")
    case True
    with "1.prems" show ?thesis by (simp add: psbt_loop.simps)
  next
    case False
    with "1.prems"(1) obtain st1 r where rec: "psbt_record P st s = Inr (st1, r)"
      and rest: "psbt_loop P st1 r = Inr st'"
      by (auto simp: psbt_loop.simps[of P st s] split: sum.splits)
    from "1.IH"[OF False rec refl rest psbt_record_bound[OF rec "1.prems"(2)]]
    show ?thesis .
  qed
qed

lemma Unserialize_bound:
  assumes "Unserialize P x s = Inr y" "hash_bound P x"
  shows "hash_bound P y"
proof -
  from assms(1) obtain s2 st where
    "psbt_loop P \<lparr>psbt = x, separators = 0, input = PartiallySignedInput_new\<lparr>index := 0\<rparr>,
                  in_globals = True\<rparr> s2 = Inr st" and "y = psbt st"
    by (auto simp: Unserialize_def split: sum.splits if_splits)
  with psbt_loop_bound[OF this(1)] assms(2) show ?thesis by simp
qed

lemma redeem_record_mismatch:
  assumes glob: "in_globals st" and len: "length h = 20"
    and small: "length script < 18446744073709551616"
    and bad: "Hash160 P script \<noteq> h"
  shows "psbt_loop P st (ser_vector (PSBT_REDEEMSCRIPT_WITNESS_UTXO # h) @ ser_vector script @ r)
           = Inl (HashMismatch PSBT_REDEEMSCRIPT_WITNESS_UTXO)"
proof -
  let ?key = "PSBT_REDEEMSCRIPT_WITNESS_UTXO # h"
  let ?s = "ser_vector ?key @ ser_vector script @ r"
  have k: "ReadCompactSize ?s = Inr (21, PSBT_REDEEMSCRIPT_WITNESS_UTXO # h @ ser_vector script @ r)"
    using ser_vector_read[of ?key "ser_vector script @ r"] len by simp
  have rk: "read_bytes 21 (PSBT_REDEEMSCRIPT_WITNESS_UTXO # h @ ser_vector script @ r)
              = Inr (?key, ser_vector script @ r)"
    using read_bytes_append[of ?key "ser_vector script @ r"] len by simp
  have v: "ReadCompactSize (ser_vector script @ r) = Inr (length script, script @ r)"
    using ser_vector_read[OF small] .
  have sw: "switch_type P st ?key (length script) (script @ r)
              = Inl (HashMismatch PSBT_REDEEMSCRIPT_WITNESS_UTXO)"
    using glob len bad
    by (auto simp: switch_type_def case_redeemscript_witness_utxo_def read_bytes_append
                   PSBT_type_defs)
  have "psbt_record P st ?s = Inl (HashMismatch PSBT_REDEEMSCRIPT_WITNESS_UTXO)"
    by (simp add: psbt_record_def k rk v sw)
  moreover have "?s \<noteq> []" by (simp add: ser_vector_def)
  ultimately show ?thesis by (simp add: psbt_loop.simps[of P st ?s])
qed

lemma witness_record_mismatch:
  assumes glob: "in_globals st" and len: "length h = 32"
    and small: "length script < 18446744073709551616"
    and bad: "SHA256 P script \<noteq> h"
  shows "psbt_loop P st (ser_vector (PSBT_WITNESSSCRIPT_PARTIAL_SIG # h) @ ser_vector script @ r)
           = Inl (HashMismatch PSBT_WITNESSSCRIPT_PARTIAL_SIG)"
proof -
  let ?key = "PSBT_WITNESSSCRIPT_PARTIAL_SIG # h"
  let ?s = "ser_vector ?key @ ser_vector script @ r"
  have k: "ReadCompactSize ?s = Inr (33, PSBT_WITNESSSCRIPT_PARTIAL_SIG # h @ ser_vector script @ r)"
    using ser_vector_read[of ?key "ser_vector script @ r"] len by simp
  have rk: "read_bytes 33 (PSBT_WITNESSSCRIPT_PARTIAL_SIG # h @ ser_vector script @ r)
              = Inr (?key, ser_vector script @ r)"
    using read_bytes_append[of ?key "ser_vector script @ r"] len by simp
  have v: "ReadCompactSize (ser_vector script @ r) = Inr (length script, script @ r)"
    using ser_vector_read[OF small] .
  have sw: "switch_type P st ?key (length script) (script @ r)
              = Inl (HashMismatch PSBT_WITNESSSCRIPT_PARTIAL_SIG)"
    using glob len bad
    by (auto simp: switch_type_def case_witnessscript_partial_sig_def read_bytes_append
                   PSBT_type_defs)
  have "psbt_record P st ?s = Inl (HashMismatch PSBT_WITNESSSCRIPT_PARTIAL_SIG)"
    by (simp add: psbt_record_def k rk v sw)
  moreover have "?s \<noteq> []" by (simp add: ser_vector_def)
  ultimately show ?thesis by (simp add: psbt_loop.simps[of P st ?s])
qed

subsection \<open>Runs on example streams\<close>

lemma read_u32s_0: "read_u32s 0 s = Inr ([], s)"
  by (simp add: read_u32s.simps)

lemma read_u32s_pos:
  "0 < k \<Longrightarrow> read_u32s k s =
     (case read_le 4 s of
        Inl e \<Rightarrow> Inl e
      | Inr (v, r) \<Rightarrow>
          (case read_u32s (k - 1) r of
             Inl e \<Rightarrow> Inl e
           | Inr (vs, r') \<Rightarrow> Inr (of_nat v # vs, r')))"
  by (subst read_u32s.simps) simp

lemmas psbt_eval = deserialize_def Unserialize_def psbt_loop.simps psbt_record_def switch_type_def
  on_separator_def case_default_def case_num_in_vin_def case_bip32_keypath_sighash_def
  case_witnessscript_partial_sig_def case_redeemscript_witness_utxo_def
  case_unsigned_tx_non_witness_utxo_def read_keypath_def read_u32s_0 read_u32s_pos
  ReadCompactSize_def read_le_def read_bytes_def PSBT_type_defs PSBT_MAGIC_BYTES_def
  PartiallySignedTransaction_new_def PartiallySignedInput_new_def CMutableTransaction_new_def
  CTxOut_null_def SetNull_def Let_def

lemmas ser_eval = Serialize_def Serialize_globals_def Serialize_input_def ser_vector_def
  WriteCompactSize_def le_bytes_2 le_bytes_4 tx_IsNull_def txout_IsNull_def PSBT_SEPARATOR_def
  PSBT_type_defs PSBT_MAGIC_BYTES_def
  PartiallySignedTransaction_new_def PartiallySignedInput_new_def CMutableTransaction_new_def
  CTxOut_null_def

lemma run_scripts:
  "deserialize example_primitives
     ([0x70, 0x73, 0x62, 0x74, 0xff,
       0x15, 0x01, 0x51, 0, 0, 0, 0, 0, 0, 0, 0, 0, 0, 0, 0, 0, 0, 0, 0, 0, 0, 0,
       0x01, 0x51,
       0x21, 0x02, 0x52, 0, 0, 0, 0, 0, 0, 0, 0, 0, 0, 0, 0, 0, 0, 0, 0, 0, 0, 0,
                         0, 0, 0, 0, 0, 0, 0, 0, 0, 0, 0, 0,
       0x01, 0x52,
       0x00,
       0x01, 0x04, 0x00, 0, 0, 0, 0, 0, 0, 0, 0,
       0x00])
   = Inr (PartiallySignedTransaction_new\<lparr>
       redeem_scripts := [([0x51, 0, 0, 0, 0, 0, 0, 0, 0, 0, 0, 0, 0, 0, 0, 0, 0, 0, 0, 0], [0x51])],
       witness_scripts := [([0x52, 0, 0, 0, 0, 0, 0, 0, 0, 0, 0, 0, 0, 0, 0, 0, 0, 0, 0, 0,
                             0, 0, 0, 0, 0, 0, 0, 0, 0, 0, 0, 0], [0x52])],
       inputs := [PartiallySignedInput_new\<lparr>in_unknown := [([0x04], [])],
                                            in_use_in_index := True\<rparr>],
       use_in_index := True\<rparr>)"
  by (simp add: psbt_eval example_primitives_def)

lemma run_empty: "deserialize P [0x70, 0x73, 0x62, 0x74, 0xff, 0x00] = Inl UnexpectedInputCount"
  by (simp add: psbt_eval)

lemma run_one_input:
  "deserialize example_primitives [0x70, 0x73, 0x62, 0x74, 0xff, 0x01, 0x00, 0x01, 0x01, 0x00, 0x00]
     = Inl IndexPolicyViolation"
  by (simp add: psbt_eval example_primitives_def)

lemma ser_empty:
  "Serialize P PartiallySignedTransaction_new = Some [0x70, 0x73, 0x62, 0x74, 0xff, 0x00]"
  by (simp add: ser_eval)

lemma ser_one_input:
  "Serialize example_primitives
     (PartiallySignedTransaction_new\<lparr>
        tx := CMutableTransaction_new\<lparr>vin := [example_txin]\<rparr>,
        inputs := [PartiallySignedInput_new]\<rparr>)
   = Some [0x70, 0x73, 0x62, 0x74, 0xff, 0x01, 0x00, 0x01, 0x01, 0x00, 0x00]"
  by (simp add: ser_eval example_primitives_def example_txin_def)

subsection \<open>Hash binding\<close>

text \<open>
  What holds of the code. After every successful deserialization every entry \<open>(h, s)\<close> of
  \<open>redeem_scripts\<close> has \<open>HASH160(s) = h\<close> and every entry \<open>(h, s)\<close> of \<open>witness_scripts\<close>
  has \<open>SHA256(s) = h\<close>.
\<close>

lemma deserialize_hash_bound:
  assumes "deserialize P s = Inr x"
  shows "(\<forall>h script. (h, script) \<in> set (redeem_scripts x) \<longrightarrow> Hash160 P script = h)
       \<and> (\<forall>h script. (h, script) \<in> set (witness_scripts x) \<longrightarrow> SHA256 P script = h)"
proof -
  from assms have "Unserialize P PartiallySignedTransaction_new s = Inr x"
    by (simp add: deserialize_def)
  moreover have "hash_bound P PartiallySignedTransaction_new"
    by (simp add: hash_bound_def PartiallySignedTransaction_new_def)
  ultimately have "hash_bound P x" by (rule Unserialize_bound)
  then show ?thesis by (simp add: hash_bound_def)
qed

text \<open>
  The records of scripts stored under their own hashes, as \<open>Serialize\<close> writes them, are
  read back in the globals and leave the read loop in the globals.
\<close>

lemma redeem_record_read:
  assumes glob: "in_globals st" and len: "length (Hash160 P script) = 20"
    and small: "length script < 18446744073709551616"
  shows "\<exists>st'. in_globals st'
           \<and> psbt_loop P st (ser_vector (PSBT_REDEEMSCRIPT_WITNESS_UTXO # Hash160 P script)
                              @ ser_vector script @ r)
               = psbt_loop P st' r"
proof -
  let ?h = "Hash160 P script"
  let ?key = "PSBT_REDEEMSCRIPT_WITNESS_UTXO # ?h"
  let ?s = "ser_vector ?key @ ser_vector script @ r"
  let ?st' = "st\<lparr>psbt := (psbt st)\<lparr>redeem_scripts :=
                 emplace ?h script (redeem_scripts (psbt st))\<rparr>\<rparr>"
  have k: "ReadCompactSize ?s = Inr (21, PSBT_REDEEMSCRIPT_WITNESS_UTXO # ?h @ ser_vector script @ r)"
    using ser_vector_read[of ?key "ser_vector script @ r"] len by simp
  have rk: "read_bytes 21 (PSBT_REDEEMSCRIPT_WITNESS_UTXO # ?h @ ser_vector script @ r)
              = Inr (?key, ser_vector script @ r)"
    using read_bytes_append[of ?key "ser_vector script @ r"] len by simp
  have v: "ReadCompactSize (ser_vector script @ r) = Inr (length script, script @ r)"
    using ser_vector_read[OF small] .
  have sw: "switch_type P st ?key (length script) (script @ r) = Inr (?st', r)"
    using glob len
    by (auto simp: switch_type_def case_redeemscript_witness_utxo_def read_bytes_append
                   PSBT_type_defs)
  have rec: "psbt_record P st ?s = Inr (?st', r)"
    by (simp add: psbt_record_def k rk v sw)
  have ne: "?s \<noteq> []" by (simp add: ser_vector_def)
  have "psbt_loop P st ?s
          = (case psbt_record P st ?s of Inl e \<Rightarrow> Inl e | Inr (st', r) \<Rightarrow> psbt_loop P st' r)"
    using ne by (subst psbt_loop.simps) (simp only: if_False)
  also have "\<dots> = psbt_loop P ?st' r"
    by (simp only: rec sum.case prod.case)
  finally have "psbt_loop P st ?s = psbt_loop P ?st' r" .
  moreover have "in_globals ?st'" using glob by simp
  ultimately show ?thesis by blast
qed

lemma redeem_records_read:
  assumes "\<forall>script. length (Hash160 P script) = 20"
    and "\<forall>script \<in> set scripts. length script < 18446744073709551616"
    and "in_globals st"
  shows "\<exists>st'. in_globals st'
           \<and> psbt_loop P st
               (concat (map (\<lambda>script. ser_vector (PSBT_REDEEMSCRIPT_WITNESS_UTXO # Hash160 P script)
                                       @ ser_vector script) scripts) @ r)
               = psbt_loop P st' r"
  using assms(2,3)
proof (induction scripts arbitrary: st)
  case Nil
  then show ?case by auto
next
  case (Cons script scripts)
  let ?rest = "concat (map (\<lambda>script. ser_vector (PSBT_REDEEMSCRIPT_WITNESS_UTXO # Hash160 P script)
                                       @ ser_vector script) scripts) @ r"
  from Cons.prems assms(1)
  have "\<exists>st'. in_globals st'
           \<and> psbt_loop P st (ser_vector (PSBT_REDEEMSCRIPT_WITNESS_UTXO # Hash160 P script)
                              @ ser_vector script @ ?rest)
               = psbt_loop P st' ?rest"
    by (intro redeem_record_read) auto
  then obtain st1 where g1: "in_globals st1"
    and l1: "psbt_loop P st (ser_vector (PSBT_REDEEMSCRIPT_WITNESS_UTXO # Hash160 P script)
                              @ ser_vector script @ ?rest)
               = psbt_loop P st1 ?rest"
    by blast
  from Cons.IH[OF _ g1] Cons.prems(1)
  obtain st' where "in_globals st'" "psbt_loop P st1 ?rest = psbt_loop P st' r" by auto
  with l1 show ?case by (intro exI[of _ st']) simp
qed

text \<open>
  A \<open>0x01\<close> or \<open>0x02\<close> record whose script does not hash to the hash in its key makes
  deserialization fail with \<open>HashMismatch\<close> when it is the first record of the stream, or
  follows records of correctly hashed redeem scripts.
\<close>

lemma deserialize_redeem_mismatch:
  assumes "\<forall>script. length (Hash160 P script) = 20"
    and "\<forall>script \<in> set scripts. length script < 2 ^ 64"
    and "length h = 20" "length script < 2 ^ 64" "Hash160 P script \<noteq> h"
  shows "deserialize P
           ([0x70, 0x73, 0x62, 0x74, b]
            @ concat (map (\<lambda>script. ser_vector (PSBT_REDEEMSCRIPT_WITNESS_UTXO # Hash160 P script)
                                    @ ser_vector script) scripts)
            @ ser_vector (PSBT_REDEEMSCRIPT_WITNESS_UTXO # h) @ ser_vector script @ r)
         = Inl (HashMismatch PSBT_REDEEMSCRIPT_WITNESS_UTXO)"
proof -
  let ?st0 = "\<lparr>psbt = PartiallySignedTransaction_new, separators = 0,
               input = PartiallySignedInput_new\<lparr>index := 0\<rparr>, in_globals = True\<rparr>"
  let ?bad = "ser_vector (PSBT_REDEEMSCRIPT_WITNESS_UTXO # h) @ ser_vector script @ r"
  from assms(2) have small: "\<forall>script \<in> set scripts. length script < 18446744073709551616"
    by simp
  from redeem_records_read[OF assms(1) small, of ?st0 ?bad]
  obtain st' where g: "in_globals st'"
    and l: "psbt_loop P ?st0
              (concat (map (\<lambda>script. ser_vector (PSBT_REDEEMSCRIPT_WITNESS_UTXO # Hash160 P script)
                                      @ ser_vector script) scripts) @ ?bad)
            = psbt_loop P st' ?bad"
    by auto
  from redeem_record_mismatch[OF g assms(3) _ assms(5), of r] assms(4)
  have "psbt_loop P st' ?bad = Inl (HashMismatch PSBT_REDEEMSCRIPT_WITNESS_UTXO)" by simp
  with l show ?thesis
    by (simp add: deserialize_def Unserialize_def read_le_def read_bytes_def PSBT_MAGIC_BYTES_def)
qed

lemma deserialize_witness_mismatch:
  assumes "\<forall>script. length (Hash160 P script) = 20"
    and "\<forall>script \<in> set scripts. length script < 2 ^ 64"
    and "length h = 32" "length script < 2 ^ 64" "SHA256 P script \<noteq> h"
  shows "deserialize P
           ([0x70, 0x73, 0x62, 0x74, b]
            @ concat (map (\<lambda>script. ser_vector (PSBT_REDEEMSCRIPT_WITNESS_UTXO # Hash160 P script)
                                    @ ser_vector script) scripts)
            @ ser_vector (PSBT_WITNESSSCRIPT_PARTIAL_SIG # h) @ ser_vector script @ r)
         = Inl (HashMismatch PSBT_WITNESSSCRIPT_PARTIAL_SIG)"
proof -
  let ?st0 = "\<lparr>psbt = PartiallySignedTransaction_new, separators = 0,
               input = PartiallySignedInput_new\<lparr>index := 0\<rparr>, in_globals = True\<rparr>"
  let ?bad = "ser_vector (PSBT_WITNESSSCRIPT_PARTIAL_SIG # h) @ ser_vector script @ r"
  from assms(2) have small: "\<forall>script \<in> set scripts. length script < 18446744073709551616"
    by simp
  from redeem_records_read[OF assms(1) small, of ?st0 ?bad]
  obtain st' where g: "in_globals st'"
    and l: "psbt_loop P ?st0
              (concat (map (\<lambda>script. ser_vector (PSBT_REDEEMSCRIPT_WITNESS_UTXO # Hash160 P script)
                                      @ ser_vector script) scripts) @ ?bad)
            = psbt_loop P st' ?bad"
    by auto
  from witness_record_mismatch[OF g assms(3) _ assms(5), of r] assms(4)
  have "psbt_loop P st' ?bad = Inl (HashMismatch PSBT_WITNESSSCRIPT_PARTIAL_SIG)" by simp
  with l show ?thesis
    by (simp add: deserialize_def Unserialize_def read_le_def read_bytes_def PSBT_MAGIC_BYTES_def)
qed

text \<open>
  C3, on the code. The second half of the claim does not hold of every stream: the case
  \<open>PSBT_NUM_IN_VIN\<close> has no \<open>break\<close> (script/sign.h:434), so after reading the number
  of inputs the parser falls into \<open>default\<close> and reads \<open>value_len\<close> more bytes, which
  are the first bytes of the next record. In the first stream the globals hold the record
  \<open>01 04 01 02\<close> (two inputs) and then a \<open>0x01\<close> record with the script \<open>50\<close> under the
  hash \<open>0f 14 00 ... 00\<close>; the parser takes the key length \<open>15\<close> of that record as the
  value of the first one, reads the rest as an unknown record, and deserialization
  succeeds without a hash being computed. The second stream does the same to a \<open>0x02\<close>
  record. With the example hashers, under which the script \<open>50\<close> has another hash, the
  same two records are rejected with \<open>HashMismatch\<close> when nothing precedes them.
\<close>

theorem hash_mismatch_not_reported:
  "deserialize P
     [0x70, 0x73, 0x62, 0x74, 0xff,
      0x01, 0x04, 0x01, 0x02,
      0x15, 0x01, 0x0f, 0x14, 0, 0, 0, 0, 0, 0, 0, 0, 0, 0, 0, 0, 0, 0, 0, 0, 0, 0,
      0x01, 0x50]
   = Inr (PartiallySignedTransaction_new\<lparr>
       unknown := [([0x04], [0x15]),
                   ([0x0f], [0, 0, 0, 0, 0, 0, 0, 0, 0, 0, 0, 0, 0, 0, 0, 0, 0, 0, 0x01, 0x50])],
       num_ins := 2\<rparr>)
   \<and> deserialize P
       [0x70, 0x73, 0x62, 0x74, 0xff,
        0x01, 0x04, 0x01, 0x02,
        0x21, 0x02, 0x0f, 0x00, 0x1f, 0, 0, 0, 0, 0, 0, 0, 0, 0, 0, 0, 0, 0, 0, 0, 0, 0, 0, 0,
          0, 0, 0, 0, 0, 0, 0, 0, 0, 0,
        0x01, 0x50]
     = Inr (PartiallySignedTransaction_new\<lparr>
         unknown := [([0x04], [0x21]),
                     ([0x0f, 0x00], [0, 0, 0, 0, 0, 0, 0, 0, 0, 0, 0, 0, 0, 0, 0, 0, 0, 0, 0,
                       0, 0, 0, 0, 0, 0, 0, 0, 0, 0, 0x01, 0x50])],
         num_ins := 2\<rparr>)
   \<and> Hash160 example_primitives [0x50] \<noteq> [0x0f, 0x14, 0, 0, 0, 0, 0, 0, 0, 0, 0, 0,
     0, 0, 0, 0, 0, 0, 0, 0]
   \<and> deserialize example_primitives
       [0x70, 0x73, 0x62, 0x74, 0xff,
        0x15, 0x01, 0x0f, 0x14, 0, 0, 0, 0, 0, 0, 0, 0, 0, 0, 0, 0, 0, 0, 0, 0, 0, 0,
        0x01, 0x50]
     = Inl (HashMismatch PSBT_REDEEMSCRIPT_WITNESS_UTXO)
   \<and> SHA256 example_primitives [0x50] \<noteq> [0x0f, 0x00, 0x1f, 0, 0, 0, 0, 0, 0, 0, 0,
     0, 0, 0, 0, 0, 0, 0, 0, 0, 0, 0, 0, 0, 0, 0, 0, 0, 0, 0, 0, 0]
   \<and> deserialize example_primitives
       [0x70, 0x73, 0x62, 0x74, 0xff,
        0x21, 0x02, 0x0f, 0x00, 0x1f, 0, 0, 0, 0, 0, 0, 0, 0, 0, 0, 0, 0, 0, 0, 0, 0, 0, 0, 0,
          0, 0, 0, 0, 0, 0, 0, 0, 0, 0,
        0x01, 0x50]
     = Inl (HashMismatch PSBT_WITNESSSCRIPT_PARTIAL_SIG)"
  by (simp add: psbt_eval example_primitives_def)

subsection \<open>The magic and the byte after it\<close>

text \<open>
  A stream of at least four bytes that does not start with \<open>70 73 62 74\<close> is rejected
  with \<open>InvalidMagic\<close>.
\<close>

lemma byte_bound: "unat (w :: byte) < 256"
proof -
  have "unat w < 2 ^ LENGTH(8)" by (rule unsigned_less)
  then show ?thesis by simp
qed

lemma le_val_inject:
  "length xs = length ys \<Longrightarrow> le_val xs = le_val ys \<Longrightarrow> xs = ys"
proof (induction xs arbitrary: ys)
  case Nil
  then show ?case by simp
next
  case (Cons a xs)
  then obtain b ys' where ys: "ys = b # ys'" by (cases ys) auto
  from Cons.prems(2) ys have e: "unat a + 256 * le_val xs = unat b + 256 * le_val ys'" by simp
  then have "(unat a + 256 * le_val xs) mod 256 = (unat b + 256 * le_val ys') mod 256" by simp
  with byte_bound[of a] byte_bound[of b] have ab: "unat a = unat b" by simp
  with e have "le_val xs = le_val ys'" by simp
  with Cons.IH[of ys'] Cons.prems(1) ys have "xs = ys'" by simp
  with ab ys show ?case by (simp add: word_unat_eq_iff)
qed

lemma invalid_magic_rejected:
  assumes "4 \<le> length s" "take 4 s \<noteq> [0x70, 0x73, 0x62, 0x74]"
  shows "deserialize P s = Inl InvalidMagic"
proof -
  have m: "le_val [0x70, 0x73, 0x62, 0x74] = PSBT_MAGIC_BYTES"
    by (simp add: PSBT_MAGIC_BYTES_def)
  have "length (take 4 s) = length [0x70 :: byte, 0x73, 0x62, 0x74]"
    using assms(1) by simp
  from le_val_inject[OF this] assms(2) have "le_val (take 4 s) \<noteq> PSBT_MAGIC_BYTES"
    unfolding m[symmetric] by blast
  then show ?thesis
    using assms(1) by (simp add: deserialize_def Unserialize_def read_le_def read_bytes_def)
qed

text \<open>
  C7, on the code. The first half of the claim holds (\<open>invalid_magic_rejected\<close>). The
  second does not: \<open>Unserialize\<close> reads the fifth byte into \<open>magic_sep\<close> and never
  compares it, so a stream whose fifth byte is \<open>0x00\<close> or \<open>0x42\<close> instead of \<open>0xFF\<close> is
  parsed like any other.
\<close>

theorem fifth_byte_not_checked:
  "deserialize P [0x70, 0x73, 0x62, 0x74, 0x00] = Inr PartiallySignedTransaction_new
   \<and> deserialize P [0x70, 0x73, 0x62, 0x74, 0x42, 0x01, 0x0f, 0x01, 0xaa]
       = Inr (PartiallySignedTransaction_new\<lparr>unknown := [([0x0f], [0xaa])]\<rparr>)"
  by (simp add: psbt_eval)

subsection \<open>The count of inputs\<close>

text \<open>
  C5, on the code. The check at the end of the stream is inverted: it throws when the
  number of input sections equals \<open>num_ins\<close>. A stream that states two inputs and has none
  (or one, in the spec's layout, where the value of the \<open>0x04\<close> record is one byte long)
  is accepted, and a stream that states one input and has one fails with
  \<open>UnexpectedInputCount\<close>.
\<close>

theorem input_count_check_inverted:
  "deserialize P [0x70, 0x73, 0x62, 0x74, 0xff, 0x01, 0x04, 0x00, 0x02, 0x00]
     = Inr (PartiallySignedTransaction_new\<lparr>unknown := [([0x04], [])], num_ins := 2\<rparr>)
   \<and> deserialize P [0x70, 0x73, 0x62, 0x74, 0xff, 0x01, 0x04, 0x01, 0x02, 0x00, 0x00]
       = Inr (PartiallySignedTransaction_new\<lparr>unknown := [([0x04], [0x00])], num_ins := 2\<rparr>)
   \<and> deserialize P [0x70, 0x73, 0x62, 0x74, 0xff, 0x01, 0x04, 0x00, 0x01, 0x00,
                     0x01, 0x04, 0x00, 0, 0, 0, 0, 0, 0, 0, 0, 0x00]
       = Inl UnexpectedInputCount"
  by (simp add: psbt_eval)

subsection \<open>Indexed and unindexed inputs\<close>

text \<open>
  C6, on the code. The check at a separator is inverted: it throws when neither the
  transaction nor the input uses an index. A stream with one unindexed input section is
  rejected with \<open>IndexPolicyViolation\<close>, and a stream whose first input section has a
  \<open>0x04\<close> record and whose second has none is accepted.
\<close>

theorem index_policy_check_inverted:
  "deserialize P [0x70, 0x73, 0x62, 0x74, 0xff, 0x00, 0x00] = Inl IndexPolicyViolation
   \<and> deserialize P [0x70, 0x73, 0x62, 0x74, 0xff, 0x00,
                     0x01, 0x04, 0x00, 0, 0, 0, 0, 0, 0, 0, 0, 0x00,
                     0x00]
       = Inr (PartiallySignedTransaction_new\<lparr>
                inputs := [PartiallySignedInput_new\<lparr>in_unknown := [([0x04], [])],
                                                     in_use_in_index := True\<rparr>,
                           PartiallySignedInput_new],
                use_in_index := True\<rparr>)"
  by (simp add: psbt_eval)

subsection \<open>Round trip\<close>

text \<open>
  C1, on the code. Deserializing what \<open>Serialize\<close> wrote does not give the PSBT back:
  the default-constructed PSBT is written as \<open>70 73 62 74 ff 00\<close>, which \<open>Unserialize\<close>
  rejects with \<open>UnexpectedInputCount\<close>; a PSBT over an unsigned transaction with one input
  is rejected with \<open>IndexPolicyViolation\<close>.
\<close>

theorem round_trip_fails:
  "Serialize P PartiallySignedTransaction_new = Some [0x70, 0x73, 0x62, 0x74, 0xff, 0x00]
   \<and> deserialize P [0x70, 0x73, 0x62, 0x74, 0xff, 0x00] = Inl UnexpectedInputCount
   \<and> Serialize example_primitives
        (PartiallySignedTransaction_new\<lparr>
           tx := CMutableTransaction_new\<lparr>vin := [example_txin]\<rparr>,
           inputs := [PartiallySignedInput_new]\<rparr>)
       = Some [0x70, 0x73, 0x62, 0x74, 0xff, 0x01, 0x00, 0x01, 0x01, 0x00, 0x00]
   \<and> deserialize example_primitives
        [0x70, 0x73, 0x62, 0x74, 0xff, 0x01, 0x00, 0x01, 0x01, 0x00, 0x00]
       = Inl IndexPolicyViolation"
  using ser_empty run_empty ser_one_input run_one_input by simp

end
